theory Spec2Isabelle
  imports Main "HOL-Library.Sublist" "HOL-Library.AList"
begin

section \<open>Python strings\<close>

text \<open>
  The script \<^verbatim>\<open>Tools/F_scripts/write_cuda_headers.py\<close> is text processing throughout.
  A Python string is modelled as a \<^typ>\<open>string\<close> of ASCII characters; the string
  methods the script calls are written out below with Python's behaviour at the edges
  (negative slice bounds, a missing separator, an empty pattern).
  Whitespace is what \<^verbatim>\<open>str.strip()\<close>, \<^verbatim>\<open>str.split()\<close> and the regular-expression class
  \<^verbatim>\<open>\s\<close> accept among the ASCII characters.
\<close>

definition is_space :: "char \<Rightarrow> bool" where
  "is_space c \<longleftrightarrow> c \<in> set [CHR 0x09, CHR 0x0A, CHR 0x0B, CHR 0x0C, CHR 0x0D,
                          CHR 0x1C, CHR 0x1D, CHR 0x1E, CHR 0x1F, CHR 0x20]"

definition lstrip :: "string \<Rightarrow> string" where
  "lstrip s = dropWhile is_space s"

definition rstrip :: "string \<Rightarrow> string" where
  "rstrip s = rev (dropWhile is_space (rev s))"

definition strip :: "string \<Rightarrow> string" where
  "strip s = rstrip (lstrip s)"

definition startswith :: "string \<Rightarrow> string \<Rightarrow> bool" where
  "startswith s p \<longleftrightarrow> prefix p s"

definition endswith :: "string \<Rightarrow> string \<Rightarrow> bool" where
  "endswith s p \<longleftrightarrow> prefix (rev p) (rev s)"

definition lower_char :: "char \<Rightarrow> char" where
  "lower_char c =
     (case map_of (zip ''ABCDEFGHIJKLMNOPQRSTUVWXYZ'' ''abcdefghijklmnopqrstuvwxyz'') c of
        None \<Rightarrow> c | Some d \<Rightarrow> d)"

definition lower :: "string \<Rightarrow> string" where
  "lower s = map lower_char s"

text \<open>\<^verbatim>\<open>s.find(sub)\<close>: the least index at which \<^verbatim>\<open>sub\<close> occurs, or \<^verbatim>\<open>-1\<close>.\<close>

fun find_at :: "string \<Rightarrow> string \<Rightarrow> nat option" where
  "find_at sub [] = (if sub = [] then Some 0 else None)"
| "find_at sub (c # cs) =
     (if prefix sub (c # cs) then Some 0 else map_option Suc (find_at sub cs))"

definition py_find :: "string \<Rightarrow> string \<Rightarrow> int" where
  "py_find s sub = (case find_at sub s of None \<Rightarrow> - 1 | Some i \<Rightarrow> int i)"

text \<open>\<^verbatim>\<open>sub in s\<close>.\<close>

definition contains :: "string \<Rightarrow> string \<Rightarrow> bool" where
  "contains s sub \<longleftrightarrow> find_at sub s \<noteq> None"

text \<open>
  Slices \<^verbatim>\<open>s[i:j]\<close>, \<^verbatim>\<open>s[i:]\<close> and \<^verbatim>\<open>s[:j]\<close>: a negative bound counts from the end,
  and every bound is clamped to the string.
\<close>

definition py_index :: "nat \<Rightarrow> int \<Rightarrow> nat" where
  "py_index n i = (if i < 0 then nat (max 0 (int n + i)) else min n (nat i))"

definition slice :: "string \<Rightarrow> int \<Rightarrow> int \<Rightarrow> string" where
  "slice s i j =
     (let a = py_index (length s) i; b = py_index (length s) j in take (b - a) (drop a s))"

definition slice_from :: "string \<Rightarrow> int \<Rightarrow> string" where
  "slice_from s i = drop (py_index (length s) i) s"

definition slice_to :: "string \<Rightarrow> int \<Rightarrow> string" where
  "slice_to s j = take (py_index (length s) j) s"

text \<open>
  \<^verbatim>\<open>s.replace(old, new)\<close> replaces every occurrence of \<^verbatim>\<open>old\<close>, scanning from the left
  and resuming after each one; with an empty \<^verbatim>\<open>old\<close> it puts \<^verbatim>\<open>new\<close> around every character.
\<close>

fun replace_ne :: "string \<Rightarrow> string \<Rightarrow> string \<Rightarrow> string" where
  "replace_ne old new [] = []"
| "replace_ne old new (c # cs) =
     (if prefix old (c # cs) then new @ replace_ne old new (drop (length old - 1) cs)
      else c # replace_ne old new cs)"

definition py_replace :: "string \<Rightarrow> string \<Rightarrow> string \<Rightarrow> string" where
  "py_replace s old new =
     (if old = [] then new @ concat (map (\<lambda>c. c # new) s) else replace_ne old new s)"

text \<open>\<^verbatim>\<open>s.split(sep)\<close> for a one-character separator: \<^verbatim>\<open>"".split(",")\<close> is \<^verbatim>\<open>[""]\<close>.\<close>

fun split_char :: "char \<Rightarrow> string \<Rightarrow> string list" where
  "split_char sep [] = [[]]"
| "split_char sep (c # cs) =
     (if c = sep then [] # split_char sep cs
      else (case split_char sep cs of [] \<Rightarrow> [[c]] | x # xs \<Rightarrow> (c # x) # xs))"

text \<open>\<^verbatim>\<open>s.split(sep, 1)\<close> and \<^verbatim>\<open>s.rsplit(sep, 1)\<close>: one cut, at the first or the last separator.\<close>

definition split1 :: "char \<Rightarrow> string \<Rightarrow> string list" where
  "split1 sep s =
     (if sep \<in> set s then [takeWhile (\<lambda>c. c \<noteq> sep) s, tl (dropWhile (\<lambda>c. c \<noteq> sep) s)]
      else [s])"

definition rsplit1 :: "char \<Rightarrow> string \<Rightarrow> string list" where
  "rsplit1 sep s =
     (if sep \<in> set s
      then [rev (tl (dropWhile (\<lambda>c. c \<noteq> sep) (rev s))), rev (takeWhile (\<lambda>c. c \<noteq> sep) (rev s))]
      else [s])"

text \<open>\<^verbatim>\<open>s.split()\<close>: the maximal runs of characters that are not whitespace.\<close>

fun split_ws_aux :: "string \<Rightarrow> string \<Rightarrow> string list" where
  "split_ws_aux cur [] = (if cur = [] then [] else [cur])"
| "split_ws_aux cur (c # cs) =
     (if is_space c then (if cur = [] then split_ws_aux [] cs else cur # split_ws_aux [] cs)
      else split_ws_aux (cur @ [c]) cs)"

definition split_ws :: "string \<Rightarrow> string list" where
  "split_ws s = split_ws_aux [] s"

text \<open>\<^verbatim>\<open>sep.join(xs)\<close>.\<close>

fun join :: "string \<Rightarrow> string list \<Rightarrow> string" where
  "join sep [] = []"
| "join sep [x] = x"
| "join sep (x # y # ys) = x @ sep @ join sep (y # ys)"

text \<open>The exceptions and exits the script can end with.\<close>

datatype error =
    IndexError
  | KeyError
  | AttributeError
  | SysExit string

text \<open>\<^verbatim>\<open>xs[i]\<close> for a non-negative \<^verbatim>\<open>i\<close>, and \<^verbatim>\<open>xs[-1]\<close>.\<close>

definition index :: "'a list \<Rightarrow> nat \<Rightarrow> error + 'a" where
  "index xs i = (if i < length xs then Inr (xs ! i) else Inl IndexError)"

definition index_last :: "'a list \<Rightarrow> error + 'a" where
  "index_last xs = (case xs of [] \<Rightarrow> Inl IndexError | _ \<Rightarrow> Inr (last xs))"

definition bind_err :: "error + 'a \<Rightarrow> ('a \<Rightarrow> error + 'b) \<Rightarrow> error + 'b" where
  "bind_err m f = (case m of Inl e \<Rightarrow> Inl e | Inr x \<Rightarrow> f x)"

section \<open>The regular expressions\<close>

text \<open>
  \<^verbatim>\<open>decls_re = (.*?)(\()(.*)(\))\<close> with \<^verbatim>\<open>DOTALL\<close>: group 1 is lazy and stops at the first
  \<^verbatim>\<open>(\<close>, group 3 is greedy and runs to the last \<^verbatim>\<open>)\<close>. A search succeeds when a \<^verbatim>\<open>)\<close> follows
  the first \<^verbatim>\<open>(\<close>. The result holds group 1, group 3 and the whole match.
\<close>

definition decls_re_search :: "string \<Rightarrow> (string \<times> string \<times> string) option" where
  "decls_re_search s =
     (if CHR ''('' \<in> set s then
        (let g1 = takeWhile (\<lambda>c. c \<noteq> CHR ''('') s;
             r = tl (dropWhile (\<lambda>c. c \<noteq> CHR ''('') s)
         in if CHR '')'' \<in> set r then
              (let g3 = rev (tl (dropWhile (\<lambda>c. c \<noteq> CHR '')'') (rev r)))
               in Some (g1, g3, g1 @ ''('' @ g3 @ '')''))
            else None)
      else None)"

text \<open>
  \<^verbatim>\<open>fortran_binding_re = (void)(\s+)((?:[a-z][a-z_]+))\<close> with \<^verbatim>\<open>IGNORECASE\<close>: the word
  \<^verbatim>\<open>void\<close>, a run of whitespace, then a letter and at least one more letter or underscore,
  as many as there are. \<^verbatim>\<open>search\<close> returns the leftmost match; the result is group 3.
\<close>

definition is_alpha :: "char \<Rightarrow> bool" where
  "is_alpha c \<longleftrightarrow> lower_char c \<in> set ''abcdefghijklmnopqrstuvwxyz''"

definition is_name_char :: "char \<Rightarrow> bool" where
  "is_name_char c \<longleftrightarrow> is_alpha c \<or> c = CHR ''_''"

definition binding_match_at :: "string \<Rightarrow> string option" where
  "binding_match_at s =
     (if lower (take 4 s) = ''void'' then
        (let r = drop 4 s; r2 = dropWhile is_space r; nm = takeWhile is_name_char r2
         in if takeWhile is_space r \<noteq> [] \<and> r2 \<noteq> [] \<and> is_alpha (hd r2) \<and> 2 \<le> length nm
            then Some nm else None)
      else None)"

fun fortran_binding_search :: "string \<Rightarrow> string option" where
  "fortran_binding_search [] = None"
| "fortran_binding_search (c # cs) =
     (case binding_match_at (c # cs) of
        Some nm \<Rightarrow> Some nm
      | None \<Rightarrow> fortran_binding_search cs)"

section \<open>The Signature Rewriter\<close>

text \<open>
  \<^verbatim>\<open>TEMPLATE.format(sig, intvects, call)\<close>: the kernel, a grid-stride loop over three
  dimensions around one call of the device function.
\<close>

definition TEMPLATE :: "string \<Rightarrow> string \<Rightarrow> string \<Rightarrow> string" where
  "TEMPLATE sig intvects call = concat
     [''\<newline>'',
      ''__global__ static void cuda_'', sig, ''\<newline>'',
      ''{\<newline>'',
      intvects, ''\<newline>'',
      ''   int blo[3];\<newline>'',
      ''   int bhi[3];\<newline>'',
      ''   for (int k = lo[2] + blockIdx.z * blockDim.z + threadIdx.z; k <= hi[2]; k += blockDim.z * gridDim.z) {\<newline>'',
      ''     blo[2] = k;\<newline>'',
      ''     bhi[2] = k;\<newline>'',
      ''     for (int j = lo[1] + blockIdx.y * blockDim.y + threadIdx.y; j <= hi[1]; j += blockDim.y * gridDim.y) {\<newline>'',
      ''       blo[1] = j;\<newline>'',
      ''       bhi[1] = j;\<newline>'',
      ''       for (int i = lo[0] + blockIdx.x * blockDim.x + threadIdx.x; i <= hi[0]; i += blockDim.x * gridDim.x) {\<newline>'',
      ''         blo[0] = i;\<newline>'',
      ''         bhi[0] = i;\<newline>'',
      ''         '', call, '';\<newline>'',
      ''       }\<newline>'',
      ''     }\<newline>'',
      ''   }\<newline>'',
      ''}\<newline>'']"

text \<open>
  The state of the loop over the parameters (lines 319 to 374): the launch signature
  \<^verbatim>\<open>func_sig\<close> and the device signature as rewritten so far, the forwarding arguments,
  the two flags and the names that need a local three-element array.
\<close>

record rewrite_state =
  func_sig :: string
  device_sig :: string
  vars :: "string list"
  has_lo :: bool
  has_hi :: bool
  intvect_vars :: "string list"

text \<open>\<^verbatim>\<open>"const int {}_1, const int {}_2, const int {}_3".format(var, var, var)\<close>\<close>

definition three_ints :: "string \<Rightarrow> string" where
  "three_ints var =
     ''const int '' @ var @ ''_1, const int '' @ var @ ''_2, const int '' @ var @ ''_3''"

text \<open>
  The loop \<^verbatim>\<open>for arg_position in arg_positions\<close> (lines 348 to 356), taken when the
  target has tagged positions: at the position of the current parameter the name becomes
  the last token of the argument text as it stands, sigils included.
\<close>

fun tagged_positions ::
  "string list \<Rightarrow> nat \<Rightarrow> nat list \<Rightarrow> string \<times> rewrite_state \<Rightarrow> error + string \<times> rewrite_state"
where
  "tagged_positions args n [] vs = Inr vs"
| "tagged_positions args n (arg_position # ps) vs =
     (if n = arg_position then
        bind_err (index args arg_position) (\<lambda>arg.
        bind_err (index_last (split_ws arg)) (\<lambda>var.
          tagged_positions args n ps
            (var, (snd vs)\<lparr>func_sig := py_replace (func_sig (snd vs)) arg (three_ints var),
                          device_sig := py_replace (device_sig (snd vs)) arg (''const int* '' @ var),
                          intvect_vars := intvect_vars (snd vs) @ [var]\<rparr>)))
      else tagged_positions args n ps vs)"

text \<open>The name taken from one parameter (lines 331 to 336).\<close>

definition declared_name :: "string \<Rightarrow> string" where
  "declared_name tok =
     (let var = strip (py_replace (py_replace tok ''*'' []) ''&'' []);
          var = py_replace var ''BL_FORT_FAB_ARG_3D'' ''BL_FORT_FAB_VAL_3D''
      in py_replace var ''BL_FORT_IFAB_ARG_3D'' ''BL_FORT_FAB_VAL_3D'')"

text \<open>
  Lines 345 to 364: with tagged positions the loop above; without, the legacy case, where
  a parameter named \<^verbatim>\<open>lo\<close> or \<^verbatim>\<open>hi\<close> has its text \<^verbatim>\<open>const int* lo\<close> (or \<^verbatim>\<open>hi\<close>) replaced in the
  launch signature.
\<close>

definition split_bounds ::
  "string list \<Rightarrow> nat list \<Rightarrow> nat \<Rightarrow> string \<Rightarrow> rewrite_state \<Rightarrow> error + string \<times> rewrite_state"
where
  "split_bounds args arg_positions n var st =
     (if arg_positions \<noteq> [] then tagged_positions args n arg_positions (var, st)
      else if var = ''lo'' then
        Inr (var, st\<lparr>func_sig := py_replace (func_sig st) ''const int* lo'' (three_ints var),
                     intvect_vars := intvect_vars st @ [var]\<rparr>)
      else if var = ''hi'' then
        Inr (var, st\<lparr>func_sig := py_replace (func_sig st) ''const int* hi'' (three_ints var),
                     intvect_vars := intvect_vars st @ [var]\<rparr>)
      else Inr (var, st))"

text \<open>Lines 366 to 374: the forwarding argument and the two flags.\<close>

definition forward_name :: "string \<times> rewrite_state \<Rightarrow> rewrite_state" where
  "forward_name vs =
     (if fst vs = ''lo'' then (snd vs)\<lparr>vars := vars (snd vs) @ [''blo''], has_lo := True\<rparr>
      else if fst vs = ''hi'' then (snd vs)\<lparr>vars := vars (snd vs) @ [''bhi''], has_hi := True\<rparr>
      else (snd vs)\<lparr>vars := vars (snd vs) @ [fst vs]\<rparr>)"

text \<open>
  One turn of the loop \<^verbatim>\<open>for n, v in enumerate(dd.group(3).split(","))\<close>. The pair
  \<^verbatim>\<open>sg\<close> is \<^verbatim>\<open>signatures[name]\<close>: the captured text and the tag positions of the target.
\<close>

definition rewrite_param ::
  "string \<times> nat list list \<Rightarrow> rewrite_state \<Rightarrow> nat \<times> string \<Rightarrow> error + rewrite_state"
where
  "rewrite_param sg st nv =
     bind_err (index_last (split_ws (snd nv))) (\<lambda>tok.
     bind_err (index (split1 CHR ''('' (fst sg)) 1) (\<lambda>r.
     bind_err (index (rsplit1 CHR '')'' r) 0) (\<lambda>inner.
     bind_err (index (snd sg) 0) (\<lambda>arg_positions.
     bind_err (split_bounds (split_char CHR '','' inner) arg_positions (fst nv) (declared_name tok) st)
       (\<lambda>vs. Inr (forward_name vs))))))"

fun rewrite_params ::
  "string \<times> nat list list \<Rightarrow> (nat \<times> string) list \<Rightarrow> rewrite_state \<Rightarrow> error + rewrite_state"
where
  "rewrite_params sg [] st = Inr st"
| "rewrite_params sg (nv # nvs) st = bind_err (rewrite_param sg st nv) (rewrite_params sg nvs)"

text \<open>The message of the exit at line 377.\<close>

definition bounds_message :: "string \<Rightarrow> string \<Rightarrow> string" where
  "bounds_message name sig =
     ''ERROR: function signature must have variables lo and hi defined:\<newline>--- function name:\<newline> ''
     @ name @ '' \<newline>--- function signature:\<newline> '' @ sig @ ''\<newline>---''"

text \<open>\<^verbatim>\<open>"   int {}[3] = {{{}_1, {}_2, {}_3}};\n".format(intvect, intvect, intvect, intvect)\<close>\<close>

definition intvect_decl :: "string \<Rightarrow> string" where
  "intvect_decl v =
     ''   int '' @ v @ ''[3] = {'' @ v @ ''_1, '' @ v @ ''_2, '' @ v @ ''_3};\<newline>''"

text \<open>
  The body of the loop \<^verbatim>\<open>for name in list(signatures_needed)\<close> (lines 299 to 392) for one
  name, up to the four texts it has built: the device declaration, and the three
  arguments of \<^verbatim>\<open>TEMPLATE.format\<close>, which are the launch declaration
  \<^verbatim>\<open>func_sig[idx:].replace(';','')\<close>, the local arrays and the call of the device function.
  The exit of line 377 is taken when \<^verbatim>\<open>not has_lo or not has_hi\<close>.
\<close>

definition rewrite_parts ::
  "string \<Rightarrow> string \<times> nat list list \<Rightarrow> error + string \<times> string \<times> string \<times> string"
where
  "rewrite_parts name sg =
     (let idx = py_find (lower (fst sg)) name;
          case_name = slice (fst sg) idx (idx + int (length name));
          dev = py_replace (''__device__ '' @ fst sg @ '';\<newline>\<newline>'') case_name (case_name @ ''_device'')
      in case decls_re_search (fst sg) of
           None \<Rightarrow> Inl AttributeError
         | Some dd \<Rightarrow>
             bind_err
               (rewrite_params sg (enumerate 0 (split_char CHR '','' (fst (snd dd))))
                  \<lparr>func_sig = fst sg, device_sig = dev, vars = [],
                   has_lo = False, has_hi = False, intvect_vars = []\<rparr>)
               (\<lambda>st.
                  if \<not> (has_lo st \<and> has_hi st) then Inl (SysExit (bounds_message name (func_sig st)))
                  else Inr (device_sig st,
                            py_replace (slice_from (func_sig st) idx) '';'' [],
                            concat (map intvect_decl (intvect_vars st)),
                            case_name @ ''_device'' @ ''('' @ join '', '' (vars st) @ '')'')))"

text \<open>
  The two texts written for the name (lines 393 and 394): the device declaration and the
  kernel, or the error the run ends with.
\<close>

definition rewrite_signature ::
  "string \<Rightarrow> string \<times> nat list list \<Rightarrow> error + string \<times> string"
where
  "rewrite_signature name sg =
     bind_err (rewrite_parts name sg) (\<lambda>p.
       Inr (fst p, TEMPLATE (fst (snd p)) (fst (snd (snd p))) (snd (snd (snd p)))))"



section \<open>Files and the capture loops\<close>

text \<open>
  An open file is the list of the lines still to be read, each line as \<^verbatim>\<open>readline\<close>
  returns it (with its line break). At the end of the file \<^verbatim>\<open>readline\<close> returns the
  empty string, again and again.
\<close>

definition readline :: "string list \<Rightarrow> string \<times> string list" where
  "readline hin = (case hin of [] \<Rightarrow> ([], []) | line # rest \<Rightarrow> (line, rest))"

text \<open>\<^verbatim>\<open>line.strip().endswith(";")\<close>\<close>

definition ends_statement :: "string \<Rightarrow> bool" where
  "ends_statement line \<longleftrightarrow> endswith (strip line) '';''"

text \<open>
  The loop after a marker line (lines 111 to 117 and 444 to 450): the caller has read
  the line after the marker. The loops below have no exit at the end of the file, so
  they are partial functions: \<^const>\<open>None\<close> is a loop that never ends.
\<close>

partial_function (option) read_call ::
  "string \<Rightarrow> string \<Rightarrow> string list \<Rightarrow> (string \<times> string list) option"
where
  "read_call func_call line hin =
     (if ends_statement line then Some (func_call @ slice_to (rstrip line) (- 1), hin)
      else read_call (func_call @ line) (fst (readline hin)) (snd (readline hin)))"

text \<open>The loop after a matched line of the preprocessed header (lines 197 to 202).\<close>

partial_function (option) read_signature ::
  "string \<Rightarrow> string \<Rightarrow> string list \<Rightarrow> (string \<times> string list) option"
where
  "read_signature launch_sig line hin =
     (if ends_statement line then Some (launch_sig @ line, hin)
      else read_signature (launch_sig @ line) (fst (readline hin)) (snd (readline hin)))"

text \<open>
  The loop after a matched line of the original header (lines 260 to 266): it reads the
  next line before it tests anything.
\<close>

partial_function (option) read_region ::
  "string \<Rightarrow> string list \<Rightarrow> (string \<times> string list) option"
where
  "read_region launch_sig hin =
     (if ends_statement (fst (readline hin))
      then Some (launch_sig @ fst (readline hin), snd (readline hin))
      else read_region (launch_sig @ fst (readline hin)) (snd (readline hin)))"

section \<open>The Target Collector\<close>

text \<open>
  Lines 121 to 132: the name and, for each macro of \<^verbatim>\<open>macro_list\<close>, the positions of the
  arguments that contain it.
\<close>

definition parse_call :: "string list \<Rightarrow> string \<Rightarrow> error + string \<times> nat list list" where
  "parse_call macro_list func_call =
     (case decls_re_search func_call of
        None \<Rightarrow> Inl AttributeError
      | Some dd \<Rightarrow>
          bind_err (index (split1 CHR ''('' (strip (snd (snd dd)))) 1) (\<lambda>r.
          bind_err (index (rsplit1 CHR '')'' r) 0) (\<lambda>inner.
            Inr (py_replace (strip (fst dd)) '' '' [],
                 map (\<lambda>macro. map fst (filter (\<lambda>ia. contains (snd ia) macro)
                                           (enumerate 0 (split_char CHR '','' inner))))
                   macro_list))))"

text \<open>
  The dictionaries \<^verbatim>\<open>targets\<close> and \<^verbatim>\<open>signatures\<close> are association lists in insertion
  order; \<^const>\<open>AList.update\<close> overwrites a key where it stands and appends a new one.
  The loop \<^verbatim>\<open>while line\<close> of \<^verbatim>\<open>find_targets_from_pragmas\<close> over one file:
\<close>

partial_function (option) find_targets_loop ::
  "string list \<Rightarrow> string \<Rightarrow> string list \<Rightarrow> (string \<times> nat list list) list
     \<Rightarrow> (error + (string \<times> nat list list) list) option"
where
  "find_targets_loop macro_list line hin targets =
     (if line = [] then Some (Inr targets)
      else if startswith line ''#pragma gpu'' then
        Option.bind (read_call [] (fst (readline hin)) (snd (readline hin))) (\<lambda>fc.
          case parse_call macro_list (fst fc) of
            Inl e \<Rightarrow> Some (Inl e)
          | Inr tg \<Rightarrow>
              find_targets_loop macro_list (fst (readline (snd fc))) (snd (readline (snd fc)))
                (AList.update (fst tg) (snd tg) targets))
      else find_targets_loop macro_list (fst (readline hin)) (snd (readline hin)) targets)"

section \<open>The Call-Site Expander\<close>

text \<open>The text written for one marked call (lines 461 to 467).\<close>

definition launch_text :: "string \<Rightarrow> string \<Rightarrow> string" where
  "launch_text func_name args = concat
     [''dim3 '', func_name, ''numBlocks, '', func_name, ''numThreads;\<newline>'',
      ''Device::grid_stride_threads_and_blocks('', func_name, ''numBlocks, '', func_name, ''numThreads);\<newline>'',
      ''#if ((__CUDACC_VER_MAJOR__ > 9) || (__CUDACC_VER_MAJOR__ == 9 && __CUDACC_VER_MINOR__ >= 1))\<newline>'',
      ''CudaAPICheck(cudaFuncSetAttribute(&cuda_'', func_name, '', cudaFuncAttributePreferredSharedMemoryCarveout, 0));\<newline>'',
      ''#endif\<newline>'',
      ''cuda_'', func_name, ''<<<'', func_name, ''numBlocks, '', func_name, ''numThreads, 0, Device::cudaStream()>>>\<newline>    ('', args, '');\<newline>'']"

text \<open>
  The loop \<^verbatim>\<open>while line\<close> of \<^verbatim>\<open>convert_cxx\<close> over one file; \<^verbatim>\<open>hout\<close> is the list of the
  strings written so far.
\<close>

partial_function (option) convert_cxx_loop ::
  "string \<Rightarrow> string list \<Rightarrow> string list \<Rightarrow> (error + string list) option"
where
  "convert_cxx_loop line hin hout =
     (if line = [] then Some (Inr hout)
      else if startswith line ''#pragma gpu'' then
        Option.bind (read_call [] (fst (readline hin)) (snd (readline hin))) (\<lambda>fc.
          case decls_re_search (fst fc) of
            None \<Rightarrow> Some (Inl AttributeError)
          | Some dd \<Rightarrow>
              convert_cxx_loop (fst (readline (snd fc))) (snd (readline (snd fc)))
                (hout @ [launch_text (py_replace (strip (fst dd)) '' '' []) (fst (snd dd))]))
      else convert_cxx_loop (fst (readline hin)) (snd (readline hin)) (hout @ [line]))"

definition convert_cxx_file :: "string list \<Rightarrow> (error + string list) option" where
  "convert_cxx_file file = convert_cxx_loop (fst (readline file)) (snd (readline file)) []"

section \<open>The Signature Extractor\<close>

text \<open>
  Lines 183 to 192 and 243 to 257: the line is cut at its first \<^verbatim>\<open>//\<close> (\<^verbatim>\<open>line[:idx]\<close>, so
  without a \<^verbatim>\<open>//\<close> the index is \<^verbatim>\<open>-1\<close> and the last character goes), and the first key of
  the dictionary that equals the name found by \<^verbatim>\<open>fortran_binding_re\<close> is the target; it
  is returned with its entry.
\<close>

definition find_target :: "(string \<times> 'v) list \<Rightarrow> string \<Rightarrow> (string \<times> 'v) option" where
  "find_target dict line =
     (let idx = py_find line ''//''; tline = slice_to line idx
      in List.find (\<lambda>kv. fortran_binding_search (lower tline) = Some (fst kv)) dict)"

text \<open>The first pass, over the preprocessed header (lines 174 to 206).\<close>

partial_function (option) scan_expanded ::
  "(string \<times> nat list list) list \<Rightarrow> string \<Rightarrow> string list
     \<Rightarrow> (string \<times> string \<times> nat list list) list
     \<Rightarrow> (string \<times> string \<times> nat list list) list option"
where
  "scan_expanded targets line hin signatures =
     (if line = [] then Some signatures
      else case find_target targets line of
        None \<Rightarrow> scan_expanded targets (fst (readline hin)) (snd (readline hin)) signatures
      | Some found \<Rightarrow>
          Option.bind (read_signature [] line hin) (\<lambda>ls.
            scan_expanded targets (fst (readline (snd ls))) (snd (readline (snd ls)))
              (AList.update (fst found) (fst ls, snd found) signatures)))"

text \<open>
  The second pass, over the original header (lines 235 to 272): the lines written and
  the dictionary \<^verbatim>\<open>signatures_needed\<close>.
\<close>

partial_function (option) scan_original ::
  "(string \<times> string \<times> nat list list) list \<Rightarrow> string \<Rightarrow> string list
     \<Rightarrow> string list \<times> (string \<times> string \<times> nat list list) list
     \<Rightarrow> (string list \<times> (string \<times> string \<times> nat list list) list) option"
where
  "scan_original signatures line hin acc =
     (if line = [] then Some acc
      else case find_target signatures line of
        Some found \<Rightarrow>
          Option.bind (read_region line hin) (\<lambda>ls.
            scan_original signatures (fst (readline (snd ls))) (snd (readline (snd ls)))
              (fst acc, AList.update (fst found) (snd found) (snd acc)))
      | None \<Rightarrow>
          scan_original signatures (fst (readline hin)) (snd (readline hin))
            (fst acc @ [line], snd acc))"

section \<open>Writing the header\<close>

text \<open>\<^verbatim>\<open>os.path.basename(p)\<close> and \<^verbatim>\<open>s.strip(chars)\<close>, for the include guard.\<close>

definition basename :: "string \<Rightarrow> string" where
  "basename p = rev (takeWhile (\<lambda>c. c \<noteq> CHR ''/'') (rev p))"

definition strip_chars :: "string \<Rightarrow> string \<Rightarrow> string" where
  "strip_chars s chars =
     rev (dropWhile (\<lambda>c. c \<in> set chars) (rev (dropWhile (\<lambda>c. c \<in> set chars) s)))"

text \<open>The writes of lines 281 to 295 and of lines 399 to 404.\<close>

definition header_intro :: "string \<Rightarrow> string list" where
  "header_intro h_name =
     (let hdrmh = strip_chars (basename h_name) ''.H'' in
      [''\<newline>'',
       ''#include <AMReX_ArrayLim.H>\<newline>'',
       ''#include <AMReX_BLFort.H>\<newline>'',
       ''#include <AMReX_Device.H>\<newline>'',
       ''\<newline>'',
       ''#ifndef _cuda_'' @ hdrmh @ ''_\<newline>'',
       ''#define _cuda_'' @ hdrmh @ ''_\<newline>\<newline>'',
       ''#ifdef AMREX_USE_CUDA\<newline>'',
       ''extern '' @ [CHR 0x22] @ ''C'' @ [CHR 0x22] @ '' {\<newline>\<newline>''])"

definition header_outro :: "string list" where
  "header_outro = [''\<newline>}\<newline>'', ''#endif\<newline>'', ''\<newline>'', ''#endif\<newline>'']"

text \<open>
  The loop \<^verbatim>\<open>for name in list(signatures_needed)\<close>: for each name the device declaration
  and the kernel, until a name fails. Each result carries its name.
\<close>

fun emit_pairs ::
  "(string \<times> string \<times> nat list list) list \<Rightarrow> string list
     \<Rightarrow> error + (string \<times> string \<times> string) list"
where
  "emit_pairs signatures [] = Inr []"
| "emit_pairs signatures (name # names) =
     (case map_of signatures name of
        None \<Rightarrow> Inl KeyError
      | Some sg \<Rightarrow>
          bind_err (rewrite_signature name sg) (\<lambda>pair.
          bind_err (emit_pairs signatures names) (\<lambda>pairs. Inr ((name, pair) # pairs))))"

text \<open>The three writes of one pair (lines 393 to 395).\<close>

definition pair_writes :: "string \<times> string \<times> string \<Rightarrow> string list" where
  "pair_writes p = [fst (snd p), snd (snd p), ''\<newline>'']"

text \<open>
  \<^verbatim>\<open>convert_headers\<close> for one header: \<^verbatim>\<open>cpp_file\<close> is the preprocessed copy the
  preprocessor left (the preprocessor is not part of the script), \<^verbatim>\<open>h_file\<close> the original.
  \<^verbatim>\<open>list(set(signatures_needed))\<close> holds each key once, in an order Python does not fix:
  \<^verbatim>\<open>set_order\<close> is that order. The result is the list of the strings written to the new
  header, or the error the run ends with; \<^const>\<open>None\<close> is a run that never ends.
\<close>

definition header_pairs ::
  "(string list \<Rightarrow> string list) \<Rightarrow> (string \<times> string \<times> nat list list) list
     \<Rightarrow> (string \<times> string \<times> nat list list) list
     \<Rightarrow> error + (string \<times> string \<times> string) list"
where
  "header_pairs set_order signatures signatures_needed =
     emit_pairs signatures (set_order (remdups (map fst signatures_needed)))"

definition convert_header ::
  "(string list \<Rightarrow> string list) \<Rightarrow> (string \<times> nat list list) list \<Rightarrow> string
     \<Rightarrow> string list \<Rightarrow> string list \<Rightarrow> (error + string list) option"
where
  "convert_header set_order targets h_name cpp_file h_file =
     Option.bind (scan_expanded targets (fst (readline cpp_file)) (snd (readline cpp_file)) [])
       (\<lambda>signatures.
     Option.bind (scan_original signatures (fst (readline h_file)) (snd (readline h_file)) ([], []))
       (\<lambda>acc.
     Some (bind_err (header_pairs set_order signatures (snd acc)) (\<lambda>pairs.
       Inr (fst acc @ header_intro h_name @ concat (map pair_writes pairs) @ header_outro)))))"

text \<open>
  The names the second pass finds, in the order in which it finds them: the values that
  \<^verbatim>\<open>found\<close> takes over the lines of the original header. The lines of a region are not
  looked at (the loop of lines 262 to 266 reads over them).
\<close>

function matched_names :: "(string \<times> 'v) list \<Rightarrow> string list \<Rightarrow> string list" where
  "matched_names dict [] = []"
| "matched_names dict (line # hin) =
     (if line = [] then []
      else case find_target dict line of
        None \<Rightarrow> matched_names dict hin
      | Some found \<Rightarrow>
          fst found # matched_names dict (tl (dropWhile (\<lambda>l. \<not> ends_statement l) hin)))"
  by pat_completeness auto
termination
  by (relation "measure (\<lambda>p. length (snd p))")
     (auto simp: less_Suc_eq_le intro: le_trans[OF diff_le_self length_dropWhile_le])

section \<open>Facts about the capture loops\<close>

lemma ends_statement_Nil [simp]: "\<not> ends_statement []"
  by (simp add: ends_statement_def endswith_def strip_def lstrip_def rstrip_def)

lemma readline_Nil [simp]: "readline [] = ([], [])"
  by (simp add: readline_def)

lemma readline_Cons [simp]: "readline (l # ls) = (l, ls)"
  by (simp add: readline_def)

lemma read_call_returns:
  "read_call fc line hin = Some r \<Longrightarrow> list_ex ends_statement (line # hin)"
proof (induction fc line hin r rule: read_call.raw_induct[rotated 1, consumes 1])
  case (1 f fc line hin r)
  show ?case
  proof (cases "ends_statement line")
    case True
    then show ?thesis by simp
  next
    case False
    with 1(2) have "f (fc @ line) (fst (readline hin)) (snd (readline hin)) = Some r"
      by simp
    then have "list_ex ends_statement (fst (readline hin) # snd (readline hin))"
      by (rule 1(1))
    then show ?thesis by (cases hin) auto
  qed
qed

lemma read_call_eq:
  "read_call fc line hin =
     (if list_ex ends_statement (line # hin)
      then Some (fc @ concat (takeWhile (\<lambda>l. \<not> ends_statement l) (line # hin))
                   @ slice_to (rstrip (hd (dropWhile (\<lambda>l. \<not> ends_statement l) (line # hin)))) (- 1),
                 tl (dropWhile (\<lambda>l. \<not> ends_statement l) (line # hin)))
      else None)"
proof (induction hin arbitrary: fc line)
  case Nil
  show ?case
  proof (cases "ends_statement line")
    case True
    then show ?thesis by (simp add: read_call.simps)
  next
    case False
    have "read_call fc line [] = None"
    proof (cases "read_call fc line []")
      case (Some r)
      from read_call_returns[OF this] False show ?thesis by simp
    qed simp
    with False show ?thesis by simp
  qed
next
  case (Cons l ls)
  show ?case
  proof (cases "ends_statement line")
    case True
    then show ?thesis by (simp add: read_call.simps)
  next
    case False
    then have "read_call fc line (l # ls) = read_call (fc @ line) l ls"
      by (subst read_call.simps) simp
    with False Cons[of "fc @ line" l] show ?thesis by simp
  qed
qed


lemma read_signature_returns:
  "read_signature sig line hin = Some r \<Longrightarrow> list_ex ends_statement (line # hin)"
proof (induction sig line hin r rule: read_signature.raw_induct[rotated 1, consumes 1])
  case (1 f sig line hin r)
  show ?case
  proof (cases "ends_statement line")
    case True
    then show ?thesis by simp
  next
    case False
    with 1(2) have "f (sig @ line) (fst (readline hin)) (snd (readline hin)) = Some r"
      by simp
    then have "list_ex ends_statement (fst (readline hin) # snd (readline hin))"
      by (rule 1(1))
    then show ?thesis by (cases hin) auto
  qed
qed

lemma read_signature_eq:
  "read_signature sig line hin =
     (if list_ex ends_statement (line # hin)
      then Some (sig @ concat (takeWhile (\<lambda>l. \<not> ends_statement l) (line # hin))
                   @ hd (dropWhile (\<lambda>l. \<not> ends_statement l) (line # hin)),
                 tl (dropWhile (\<lambda>l. \<not> ends_statement l) (line # hin)))
      else None)"
proof (induction hin arbitrary: sig line)
  case Nil
  show ?case
  proof (cases "ends_statement line")
    case True
    then show ?thesis by (simp add: read_signature.simps)
  next
    case False
    have "read_signature sig line [] = None"
    proof (cases "read_signature sig line []")
      case (Some r)
      from read_signature_returns[OF this] False show ?thesis by simp
    qed simp
    with False show ?thesis by simp
  qed
next
  case (Cons l ls)
  show ?case
  proof (cases "ends_statement line")
    case True
    then show ?thesis by (simp add: read_signature.simps)
  next
    case False
    then have "read_signature sig line (l # ls) = read_signature (sig @ line) l ls"
      by (subst read_signature.simps) simp
    with False Cons[of "sig @ line" l] show ?thesis by simp
  qed
qed

lemma read_region_returns:
  "read_region sig hin = Some r \<Longrightarrow> list_ex ends_statement hin"
proof (induction sig hin r rule: read_region.raw_induct[rotated 1, consumes 1])
  case (1 f sig hin r)
  show ?case
  proof (cases "ends_statement (fst (readline hin))")
    case True
    then show ?thesis by (cases hin) auto
  next
    case False
    with 1(2) have "f (sig @ fst (readline hin)) (snd (readline hin)) = Some r"
      by simp
    then have "list_ex ends_statement (snd (readline hin))"
      by (rule 1(1))
    then show ?thesis by (cases hin) auto
  qed
qed

lemma read_region_eq:
  "read_region sig hin =
     (if list_ex ends_statement hin
      then Some (sig @ concat (takeWhile (\<lambda>l. \<not> ends_statement l) hin)
                   @ hd (dropWhile (\<lambda>l. \<not> ends_statement l) hin),
                 tl (dropWhile (\<lambda>l. \<not> ends_statement l) hin))
      else None)"
proof (induction hin arbitrary: sig)
  case Nil
  have "read_region sig [] = None"
  proof (cases "read_region sig []")
    case (Some r)
    from read_region_returns[OF this] show ?thesis by simp
  qed simp
  then show ?case by simp
next
  case (Cons l ls)
  show ?case
  proof (cases "ends_statement l")
    case True
    then show ?thesis by (simp add: read_region.simps)
  next
    case False
    then have "read_region sig (l # ls) = read_region (sig @ l) ls"
      by (subst read_region.simps) simp
    with False Cons[of "sig @ l"] show ?thesis by simp
  qed
qed


lemma startswith_nonempty: "startswith line ''#pragma gpu'' \<Longrightarrow> line \<noteq> []"
  by (auto simp: startswith_def)


section \<open>Facts about the loop over the parameters\<close>

lemma bind_err_simps [simp]:
  "bind_err (Inl e) f = Inl e"
  "bind_err (Inr x) f = f x"
  by (simp_all add: bind_err_def)

lemma bind_err_Inr_iff:
  "bind_err m f = Inr y \<longleftrightarrow> (\<exists>x. m = Inr x \<and> f x = Inr y)"
  by (cases m) auto

lemma index_Inr_iff: "index xs i = Inr x \<longleftrightarrow> i < length xs \<and> xs ! i = x"
  by (auto simp: index_def)

lemma index_last_Inr_iff: "index_last xs = Inr x \<longleftrightarrow> xs \<noteq> [] \<and> last xs = x"
  by (cases xs) (auto simp: index_last_def)

lemma decls_re_search_parts:
  assumes "decls_re_search s = Some (g1, g3, g)"
  shows "index (split1 CHR ''('' s) 1 = Inr (tl (dropWhile (\<lambda>c. c \<noteq> CHR ''('') s))"
    and "index (rsplit1 CHR '')'' (tl (dropWhile (\<lambda>c. c \<noteq> CHR ''('') s))) 0 = Inr g3"
  using assms
  by (auto simp: decls_re_search_def split1_def rsplit1_def index_def Let_def split: if_splits)

lemma declared_name_lo: "declared_name ''lo'' = ''lo''"
  by code_simp

lemma declared_name_hi: "declared_name ''hi'' = ''hi''"
  by code_simp

lemma tagged_positions_flags:
  "tagged_positions args n ps vs = Inr vs' \<Longrightarrow>
     has_lo (snd vs') = has_lo (snd vs) \<and> has_hi (snd vs') = has_hi (snd vs)
     \<and> (fst vs' = fst vs \<or> (\<exists>a\<in>set args. fst vs' = last (split_ws a)))"
proof (induction args n ps vs rule: tagged_positions.induct)
  case (1 args n vs)
  then show ?case by simp
next
  case (2 args n arg_position ps vs)
  show ?case
  proof (cases "n = arg_position")
    case False
    with 2 show ?thesis by simp
  next
    case True
    with "2.prems" obtain arg var where
      arg: "index args arg_position = Inr arg" and
      var: "index_last (split_ws arg) = Inr var" and
      rest: "tagged_positions args n ps
            (var, (snd vs)\<lparr>func_sig := py_replace (func_sig (snd vs)) arg (three_ints var),
                          device_sig := py_replace (device_sig (snd vs)) arg (''const int* '' @ var),
                          intvect_vars := intvect_vars (snd vs) @ [var]\<rparr>) = Inr vs'"
      by (auto simp: bind_err_Inr_iff)
    from "2.IH"(1)[OF True rest] arg var
    show ?thesis
      by (auto simp: index_Inr_iff index_last_Inr_iff)
  qed
qed

lemma tagged_positions_total:
  assumes "n < length args" "split_ws (args ! n) \<noteq> []"
  shows "\<exists>vs'. tagged_positions args n ps vs = Inr vs'"
  using assms
  by (induction args n ps vs rule: tagged_positions.induct)
     (auto simp: index_def index_last_def split: list.splits)


lemma split_bounds_flags:
  assumes "split_bounds args ps n var st = Inr vs"
  shows "has_lo (snd vs) = has_lo st" "has_hi (snd vs) = has_hi st"
    "fst vs = var \<or> (\<exists>a\<in>set args. fst vs = last (split_ws a))"
  using assms tagged_positions_flags[of args n ps "(var, st)" vs]
  by (auto simp: split_bounds_def split: if_splits)

lemma rewrite_param_flags:
  assumes dd: "decls_re_search (fst sg) = Some (g1, g3, g)"
    and ok: "rewrite_param sg st nv = Inr st'"
  shows "has_lo st' \<longrightarrow> has_lo st \<or>
           (\<exists>v\<in>insert (snd nv) (set (split_char CHR '','' g3)). declared_name (last (split_ws v)) = ''lo'')"
    and "has_hi st' \<longrightarrow> has_hi st \<or>
           (\<exists>v\<in>insert (snd nv) (set (split_char CHR '','' g3)). declared_name (last (split_ws v)) = ''hi'')"
proof -
  from ok decls_re_search_parts[OF dd] obtain tok ps vs where
    tok: "index_last (split_ws (snd nv)) = Inr tok" and
    vs: "split_bounds (split_char CHR '','' g3) ps (fst nv) (declared_name tok) st = Inr vs" and
    fin: "st' = forward_name vs"
    by (auto simp: rewrite_param_def bind_err_Inr_iff)
  from tok have tok': "tok = last (split_ws (snd nv))"
    by (simp add: index_last_Inr_iff)
  note sb = split_bounds_flags[OF vs]
  from fin sb(1,2) have lo: "has_lo st' \<longrightarrow> has_lo st \<or> fst vs = ''lo''"
    and hi: "has_hi st' \<longrightarrow> has_hi st \<or> fst vs = ''hi''"
    by (auto simp: forward_name_def split: if_splits)
  from lo sb(3) tok' show "has_lo st' \<longrightarrow> has_lo st \<or>
           (\<exists>v\<in>insert (snd nv) (set (split_char CHR '','' g3)). declared_name (last (split_ws v)) = ''lo'')"
    using declared_name_lo by (metis insert_iff)
  from hi sb(3) tok' show "has_hi st' \<longrightarrow> has_hi st \<or>
           (\<exists>v\<in>insert (snd nv) (set (split_char CHR '','' g3)). declared_name (last (split_ws v)) = ''hi'')"
    using declared_name_hi by (metis insert_iff)
qed

lemma rewrite_params_flags:
  assumes dd: "decls_re_search (fst sg) = Some (g1, g3, g)"
  shows "rewrite_params sg nvs st = Inr st' \<Longrightarrow>
     (has_lo st' \<longrightarrow> has_lo st \<or>
        (\<exists>v\<in>snd ` set nvs \<union> set (split_char CHR '','' g3). declared_name (last (split_ws v)) = ''lo''))
     \<and> (has_hi st' \<longrightarrow> has_hi st \<or>
        (\<exists>v\<in>snd ` set nvs \<union> set (split_char CHR '','' g3). declared_name (last (split_ws v)) = ''hi''))"
proof (induction nvs arbitrary: st)
  case Nil
  then show ?case by simp
next
  case (Cons nv nvs)
  from Cons.prems obtain st1 where
    one: "rewrite_param sg st nv = Inr st1" and rest: "rewrite_params sg nvs st1 = Inr st'"
    by (auto simp: bind_err_Inr_iff)
  from rewrite_param_flags[OF dd one] Cons.IH[OF rest] show ?case
    by auto
qed

lemma rewrite_param_total:
  assumes dd: "decls_re_search (fst sg) = Some (g1, g3, g)"
    and "snd sg \<noteq> []" "split_ws (snd nv) \<noteq> []"
    and "fst nv < length (split_char CHR '','' g3)"
    and "split_ws (split_char CHR '','' g3 ! fst nv) \<noteq> []"
  shows "\<exists>st'. rewrite_param sg st nv = Inr st'"
proof -
  have tok: "index_last (split_ws (snd nv)) = Inr (last (split_ws (snd nv)))"
    using assms(3) by (simp add: index_last_Inr_iff)
  have ps: "index (snd sg) 0 = Inr (snd sg ! 0)"
    using assms(2) by (simp add: index_def)
  have "\<exists>vs. split_bounds (split_char CHR '','' g3) ps (fst nv) var st = Inr vs" for ps var
    using tagged_positions_total[OF assms(4,5)] by (auto simp: split_bounds_def)
  then obtain vs where "split_bounds (split_char CHR '','' g3) (snd sg ! 0) (fst nv)
      (declared_name (last (split_ws (snd nv)))) st = Inr vs"
    by blast
  then show ?thesis
    using tok ps decls_re_search_parts[OF dd]
    by (simp add: rewrite_param_def)
qed

lemma rewrite_params_total:
  assumes dd: "decls_re_search (fst sg) = Some (g1, g3, g)"
    and "snd sg \<noteq> []"
  shows "\<forall>nv\<in>set nvs. split_ws (snd nv) \<noteq> [] \<and> fst nv < length (split_char CHR '','' g3)
            \<and> split_ws (split_char CHR '','' g3 ! fst nv) \<noteq> [] \<Longrightarrow>
         \<exists>st'. rewrite_params sg nvs st = Inr st'"
proof (induction nvs arbitrary: st)
  case Nil
  then show ?case by simp
next
  case (Cons nv nvs)
  then obtain st1 where "rewrite_param sg st nv = Inr st1"
    using rewrite_param_total[OF dd assms(2), of nv st] by auto
  with Cons show ?case by auto
qed


section \<open>Occurrences of a text\<close>

lemma find_at_None_iff: "find_at q s \<noteq> None \<longleftrightarrow> (\<exists>a b. s = a @ q @ b)"
proof (induction s)
  case Nil
  then show ?case by auto
next
  case (Cons c cs)
  show ?case
  proof (cases "prefix q (c # cs)")
    case True
    then obtain b where "c # cs = q @ b" by (auto simp: prefix_def)
    then have "\<exists>a b. c # cs = a @ q @ b" by (metis append_Nil)
    with True show ?thesis by simp
  next
    case False
    have "(\<exists>a b. c # cs = a @ q @ b) \<longleftrightarrow> (\<exists>a b. cs = a @ q @ b)"
    proof
      assume "\<exists>a b. c # cs = a @ q @ b"
      then obtain a b where ab: "c # cs = a @ q @ b" by blast
      show "\<exists>a b. cs = a @ q @ b"
      proof (cases a)
        case Nil
        with ab False show ?thesis by (auto simp: prefix_def)
      next
        case (Cons x a')
        with ab show ?thesis by auto
      qed
    next
      assume "\<exists>a b. cs = a @ q @ b"
      then obtain a b where "cs = a @ q @ b" by blast
      then have "c # cs = (c # a) @ q @ b" by simp
      then show "\<exists>a b. c # cs = a @ q @ b" by blast
    qed
    with False Cons show ?thesis by simp
  qed
qed

lemma contains_iff: "contains s q \<longleftrightarrow> (\<exists>a b. s = a @ q @ b)"
  by (simp add: contains_def find_at_None_iff del: not_None_eq)

section \<open>Facts about parsing a call\<close>

lemma decls_re_search_shape:
  assumes "CHR ''('' \<notin> set pre" "CHR '')'' \<notin> set post"
  shows "decls_re_search (pre @ ''('' @ mid @ '')'' @ post) = Some (pre, mid, pre @ ''('' @ mid @ '')'')"
proof -
  let ?s = "pre @ ''('' @ mid @ '')'' @ post"
  have all_pre: "\<forall>x\<in>set pre. x \<noteq> CHR ''(''" and all_post: "\<forall>x\<in>set (rev post). x \<noteq> CHR '')''"
    using assms by auto
  have tw: "takeWhile (\<lambda>c. c \<noteq> CHR ''('') ?s = pre"
    using all_pre by (simp add: takeWhile_tail)
  have dw: "dropWhile (\<lambda>c. c \<noteq> CHR ''('') ?s = ''('' @ mid @ '')'' @ post"
    using all_pre by (simp add: dropWhile_append)
  have "dropWhile (\<lambda>c. c \<noteq> CHR '')'') (rev post @ CHR '')'' # rev mid) = CHR '')'' # rev mid"
    using all_post by (simp add: dropWhile_append)
  then have r: "rev (tl (dropWhile (\<lambda>c. c \<noteq> CHR '')'') (rev (mid @ '')'' @ post)))) = mid"
    by simp
  show ?thesis
    unfolding decls_re_search_def Let_def tw dw using r by simp
qed

lemma replace_ne_single: "replace_ne [c] [] s = filter (\<lambda>x. x \<noteq> c) s"
  by (induction s) auto

lemma py_replace_single: "py_replace s [c] [] = filter (\<lambda>x. x \<noteq> c) s"
  by (simp add: py_replace_def replace_ne_single)

lemma positions_enumerate:
  "map fst (filter (\<lambda>ia. P (snd ia)) (enumerate 0 xs)) = filter (\<lambda>i. P (xs ! i)) [0..<length xs]"
proof (induction xs rule: rev_induct)
  case Nil
  then show ?case by simp
next
  case (snoc x xs)
  have "filter (\<lambda>i. P ((xs @ [x]) ! i)) [0..<length xs] = filter (\<lambda>i. P (xs ! i)) [0..<length xs]"
    by (rule filter_cong) (auto simp: nth_append)
  with snoc show ?case
    by (simp add: enumerate_append_eq)
qed

lemma join_split_char: "join [sep] (split_char sep s) = s"
proof (induction s)
  case Nil
  then show ?case by simp
next
  case (Cons c cs)
  show ?case
  proof (cases "split_char sep cs")
    case Nil
    with Cons show ?thesis by simp
  next
    case (Cons a list)
    with Cons.IH show ?thesis by (cases list) auto
  qed
qed

lemma split_char_no_sep: "a \<in> set (split_char sep s) \<Longrightarrow> sep \<notin> set a"
proof (induction s arbitrary: a)
  case Nil
  then show ?case by simp
next
  case (Cons c cs)
  then show ?case
    by (cases "split_char sep cs") (auto split: if_splits)
qed

lemma rstrip_nonspace_end: "\<not> is_space c \<Longrightarrow> rstrip (s @ [c]) = s @ [c]"
  by (simp add: rstrip_def)

lemma strip_call:
  assumes "CHR ''('' \<notin> set pre"
  shows "strip (pre @ ''('' @ mid @ '')'') = lstrip pre @ ''('' @ mid @ '')''"
proof -
  have sp: "\<not> is_space CHR ''(''" "\<not> is_space CHR '')''"
    by (simp_all add: is_space_def)
  have "lstrip (pre @ ''('' @ mid @ '')'') = lstrip pre @ ''('' @ mid @ '')''"
    using sp by (simp add: lstrip_def dropWhile_append)
  moreover have "rstrip ((lstrip pre @ ''('' @ mid) @ '')'') = (lstrip pre @ ''('' @ mid) @ '')''"
    using sp(2) by (rule rstrip_nonspace_end)
  ultimately show ?thesis by (simp add: strip_def)
qed

lemma parse_call_shape:
  assumes "CHR ''('' \<notin> set pre" "CHR '')'' \<notin> set post"
  shows "parse_call macro_list (pre @ ''('' @ mid @ '')'' @ post) =
     Inr (filter (\<lambda>c. c \<noteq> CHR '' '') (strip pre),
          map (\<lambda>macro. filter (\<lambda>i. contains (split_char CHR '','' mid ! i) macro)
                         [0..<length (split_char CHR '','' mid)]) macro_list)"
proof -
  have "set (lstrip pre) \<subseteq> set pre"
    by (simp add: lstrip_def set_dropWhileD subsetI)
  with assms(1) have np: "CHR ''('' \<notin> set (lstrip pre)" by blast
  from np have "\<forall>x\<in>set (lstrip pre). x \<noteq> CHR ''(''" by auto
  then have s1: "index (split1 CHR ''('' (lstrip pre @ ''('' @ mid @ '')'')) 1 = Inr (mid @ '')'')"
    by (simp add: split1_def index_def dropWhile_append)
  have "dropWhile (\<lambda>c. c \<noteq> CHR '')'') (rev (mid @ '')'')) = CHR '')'' # rev mid"
    by simp
  then have s2: "index (rsplit1 CHR '')'' (mid @ '')'')) 0 = Inr mid"
    by (simp add: rsplit1_def index_def)
  have st: "strip (pre @ CHR ''('' # mid @ '')'') = lstrip pre @ CHR ''('' # mid @ '')''"
    using strip_call[OF assms(1), of mid] by simp
  have s1': "index (split1 CHR ''('' (lstrip pre @ CHR ''('' # mid @ '')'')) (Suc 0) = Inr (mid @ '')'')"
    using s1 by simp
  have pe: "map fst (filter (\<lambda>ia. contains (snd ia) m) (enumerate 0 xs))
      = filter (\<lambda>i. contains (xs ! i) m) [0..<length xs]" for m xs
    by (rule positions_enumerate)
  show ?thesis
    unfolding parse_call_def decls_re_search_shape[OF assms]
    by (simp add: st s1' s2 py_replace_single pe)
qed

lemma strip_decomposition:
  "(\<exists>ws1 ws2. s = ws1 @ strip s @ ws2 \<and> list_all is_space ws1 \<and> list_all is_space ws2)
   \<and> (strip s \<noteq> [] \<longrightarrow> \<not> is_space (hd (strip s)) \<and> \<not> is_space (last (strip s)))"
proof
  let ?l = "dropWhile is_space s"
  have 1: "s = takeWhile is_space s @ ?l" by simp
  have 2: "?l = rev (dropWhile is_space (rev ?l)) @ rev (takeWhile is_space (rev ?l))"
    by (metis rev_append rev_rev_ident takeWhile_dropWhile_id)
  have "s = takeWhile is_space s @ strip s @ rev (takeWhile is_space (rev ?l))"
    using 1 2 by (metis lstrip_def rstrip_def strip_def)
  moreover have "list_all is_space (takeWhile is_space s)"
    by (simp add: list_all_iff) (meson set_takeWhileD)
  moreover have "list_all is_space (rev (takeWhile is_space (rev ?l)))"
    by (simp add: list_all_iff) (meson set_takeWhileD)
  ultimately show "\<exists>ws1 ws2. s = ws1 @ strip s @ ws2 \<and> list_all is_space ws1 \<and> list_all is_space ws2"
    by blast
next
  show "strip s \<noteq> [] \<longrightarrow> \<not> is_space (hd (strip s)) \<and> \<not> is_space (last (strip s))"
  proof
    assume ne: "strip s \<noteq> []"
    let ?l = "dropWhile is_space s"
    have st: "strip s = rev (dropWhile is_space (rev ?l))"
      by (simp add: strip_def lstrip_def rstrip_def)
    with ne have dne: "dropWhile is_space (rev ?l) \<noteq> []" by simp
    have "last (strip s) = hd (dropWhile is_space (rev ?l))"
      using st dne by (simp add: last_rev)
    then have l: "\<not> is_space (last (strip s))"
      using dne by (metis hd_dropWhile)
    obtain r where "?l = strip s @ r"
      using st by (metis rev_append rev_rev_ident takeWhile_dropWhile_id)
    with ne have "hd (strip s) = hd ?l" by (metis hd_append2)
    moreover have "?l \<noteq> []" using \<open>?l = strip s @ r\<close> ne by auto
    ultimately have "\<not> is_space (hd (strip s))" by (metis hd_dropWhile)
    with l show "\<not> is_space (hd (strip s)) \<and> \<not> is_space (last (strip s))" by simp
  qed
qed


section \<open>Facts about the scans\<close>



lemma scan_original_eof: "scan_original signatures [] hin acc = Some acc"
  by (subst scan_original.simps) simp

lemma scan_expanded_eof: "scan_expanded targets [] hin signatures = Some signatures"
  by (subst scan_expanded.simps) simp


section \<open>Facts about the emitted pairs\<close>

lemma scan_original_keys:
  "scan_original sigs (fst (readline ls)) (snd (readline ls)) acc = Some acc' \<Longrightarrow>
   fst ` set (snd acc') = fst ` set (snd acc) \<union> set (matched_names sigs ls)"
proof (induction ls arbitrary: acc rule: length_induct)
  case (1 ls)
  show ?case
  proof (cases ls)
    case Nil
    with 1(2) show ?thesis by (simp add: scan_original_eof)
  next
    case (Cons l rest)
    show ?thesis
    proof (cases "l = []")
      case True
      with 1(2) Cons show ?thesis by (simp add: scan_original_eof)
    next
      case False
      show ?thesis
      proof (cases "find_target sigs l")
        case None
        from 1(2) Cons False None
        have "scan_original sigs (fst (readline rest)) (snd (readline rest)) (fst acc @ [l], snd acc) = Some acc'"
          by (subst (asm) scan_original.simps) simp
        from 1(1)[rule_format, OF _ this] Cons False None show ?thesis by simp
      next
        case (Some found)
        let ?rest' = "tl (dropWhile (\<lambda>l. \<not> ends_statement l) rest)"
        from 1(2) Cons False Some
        have "Option.bind (read_region l rest) (\<lambda>ls.
            scan_original sigs (fst (readline (snd ls))) (snd (readline (snd ls)))
              (fst acc, AList.update (fst found) (snd found) (snd acc))) = Some acc'"
          by (subst (asm) scan_original.simps) simp
        then have step: "scan_original sigs (fst (readline ?rest')) (snd (readline ?rest'))
              (fst acc, AList.update (fst found) (snd found) (snd acc)) = Some acc'"
          by (auto simp: read_region_eq bind_eq_Some_conv split: if_splits)
        have "length ?rest' < length ls"
          using Cons by (simp add: less_Suc_eq_le le_trans[OF diff_le_self length_dropWhile_le])
        from 1(1)[rule_format, OF this step] Cons False Some show ?thesis
          by (simp add: dom_update)
      qed
    qed
  qed
qed

lemma emit_pairs_names: "emit_pairs sigs names = Inr pairs \<Longrightarrow> map fst pairs = names"
proof (induction names arbitrary: pairs)
  case Nil
  then show ?case by simp
next
  case (Cons n names)
  then show ?case
    by (auto simp: bind_err_Inr_iff split: option.splits)
qed

lemma emit_pairs_content:
  "emit_pairs sigs names = Inr pairs \<Longrightarrow>
   \<forall>p\<in>set pairs. \<exists>sg. map_of sigs (fst p) = Some sg \<and> rewrite_signature (fst p) sg = Inr (snd p)"
proof (induction names arbitrary: pairs)
  case Nil
  then show ?case by simp
next
  case (Cons n names)
  from Cons.prems obtain sg where sg: "map_of sigs n = Some sg"
    by (cases "map_of sigs n") auto
  with Cons.prems obtain pair where pair: "rewrite_signature n sg = Inr pair"
    by (cases "rewrite_signature n sg") auto
  with sg Cons.prems obtain rest where
    rest: "emit_pairs sigs names = Inr rest" and pairs: "pairs = (n, pair) # rest"
    by (cases "emit_pairs sigs names") auto
  show ?case
  proof
    fix p
    assume "p \<in> set pairs"
    with pairs consider "p = (n, pair)" | "p \<in> set rest" by auto
    then show "\<exists>sg. map_of sigs (fst p) = Some sg \<and> rewrite_signature (fst p) sg = Inr (snd p)"
    proof cases
      case 1
      with sg pair show ?thesis by (intro exI[of _ sg]) simp
    next
      case 2
      from bspec[OF Cons.IH[OF rest] 2] show ?thesis .
    qed
  qed
qed

lemma count_in_distinct:
  assumes "distinct (map f xs)"
  shows "length (filter (\<lambda>x. f x = k) xs) = (if k \<in> f ` set xs then 1 else 0)"
  using assms by (induction xs) (auto simp: image_iff)


section \<open>Facts about the match of a declaration line\<close>

lemma length_lower [simp]: "length (lower s) = length s"
  by (simp add: lower_def)

lemma lower_append [simp]: "lower (a @ b) = lower a @ lower b"
  by (simp add: lower_def)





















section \<open>Replacements in a parameter list\<close>


lemma set_replace_ne: "set (replace_ne pat rep s) \<subseteq> set s \<union> set rep"
proof (induction pat rep s rule: replace_ne.induct)
  case (1 old new)
  then show ?case by simp
next
  case (2 old new c cs)
  show ?case
  proof (cases "prefix old (c # cs)")
    case True
    have "set (drop (length old - 1) cs) \<subseteq> set cs" by (rule set_drop_subset)
    with 2(1)[OF True] True show ?thesis by auto
  next
    case False
    with 2(2)[OF False] show ?thesis by auto
  qed
qed






























section \<open>The suffix of the device declaration\<close>

text \<open>
  C2. In \<^verbatim>\<open>void foo(const int* lo, const int* hi, Real* foo_data);\<close> the name \<^verbatim>\<open>foo\<close> occurs a
  second time, inside the parameter \<^verbatim>\<open>foo_data\<close>. \<^verbatim>\<open>str.replace\<close> has no count, so the device
  declaration written has the suffix at both places: the parameter becomes
  \<^verbatim>\<open>foo_device_data\<close>.
\<close>

theorem device_suffix_every_occurrence:
  "map_sum id fst
     (rewrite_signature ''foo''
        (''void foo(const int* lo, const int* hi, Real* foo_data);\<newline>'', [[]])) =
     Inr ''__device__ void foo_device(const int* lo, const int* hi, Real* foo_device_data);\<newline>;\<newline>\<newline>''"
  by code_simp


section \<open>The bound parameters are required\<close>

text \<open>
  C1. The name of a parameter is \<^const>\<open>declared_name\<close> of its last token. If the rewriting
  of a captured declaration succeeds, one parameter is named \<^verbatim>\<open>lo\<close> and one is named \<^verbatim>\<open>hi\<close>.
  If the declaration has a parameter list in which every parameter has a token (and the
  target has an entry for the one tag), and \<^verbatim>\<open>lo\<close> or \<^verbatim>\<open>hi\<close> is missing, the run ends with the
  exit whose message holds the target name.
\<close>

theorem bounds_completeness:
  "(rewrite_signature name (sig, pos) = Inr out \<longrightarrow>
      (\<exists>g1 g3 g. decls_re_search sig = Some (g1, g3, g)
         \<and> (\<exists>v\<in>set (split_char CHR '','' g3). declared_name (last (split_ws v)) = ''lo'')
         \<and> (\<exists>v\<in>set (split_char CHR '','' g3). declared_name (last (split_ws v)) = ''hi'')))
   \<and> (decls_re_search sig = Some (g1, g3, g) \<and> pos \<noteq> []
        \<and> (\<forall>v\<in>set (split_char CHR '','' g3). split_ws v \<noteq> [])
        \<and> \<not> ((\<exists>v\<in>set (split_char CHR '','' g3). declared_name (last (split_ws v)) = ''lo'')
              \<and> (\<exists>v\<in>set (split_char CHR '','' g3). declared_name (last (split_ws v)) = ''hi''))
      \<longrightarrow> (\<exists>fs. rewrite_signature name (sig, pos) = Inl (SysExit (bounds_message name fs)))
          \<and> (\<forall>fs. \<exists>a b. bounds_message name fs = a @ name @ b))"
proof (intro conjI impI)
  assume ok: "rewrite_signature name (sig, pos) = Inr out"
  then obtain p where parts: "rewrite_parts name (sig, pos) = Inr p"
    by (auto simp: rewrite_signature_def bind_err_Inr_iff)
  then obtain g1 g3 g where dd: "decls_re_search sig = Some (g1, g3, g)"
    by (cases "decls_re_search sig") (auto simp: rewrite_parts_def Let_def)
  let ?init = "\<lparr>func_sig = sig,
      device_sig = py_replace (''__device__ '' @ sig @ '';\<newline>\<newline>'')
        (slice sig (py_find (lower sig) name) (py_find (lower sig) name + int (length name)))
        (slice sig (py_find (lower sig) name) (py_find (lower sig) name + int (length name)) @ ''_device''),
      vars = [], has_lo = False, has_hi = False, intvect_vars = []\<rparr>"
  from parts dd obtain st where
    run: "rewrite_params (sig, pos) (enumerate 0 (split_char CHR '','' g3)) ?init = Inr st"
    and flags: "has_lo st \<and> has_hi st"
    by (auto simp: rewrite_parts_def Let_def bind_err_Inr_iff split: if_splits)
  have "snd ` set (enumerate 0 (split_char CHR '','' g3)) = set (split_char CHR '','' g3)"
    by (metis map_snd_enumerate set_map)
  with rewrite_params_flags[of "(sig, pos)" g1 g3 g, OF _ run] dd flags
  show "\<exists>g1 g3 g. decls_re_search sig = Some (g1, g3, g)
         \<and> (\<exists>v\<in>set (split_char CHR '','' g3). declared_name (last (split_ws v)) = ''lo'')
         \<and> (\<exists>v\<in>set (split_char CHR '','' g3). declared_name (last (split_ws v)) = ''hi'')"
    by auto
next
  assume wf: "decls_re_search sig = Some (g1, g3, g) \<and> pos \<noteq> []
        \<and> (\<forall>v\<in>set (split_char CHR '','' g3). split_ws v \<noteq> [])
        \<and> \<not> ((\<exists>v\<in>set (split_char CHR '','' g3). declared_name (last (split_ws v)) = ''lo'')
              \<and> (\<exists>v\<in>set (split_char CHR '','' g3). declared_name (last (split_ws v)) = ''hi''))"
  then have dd: "decls_re_search sig = Some (g1, g3, g)" by simp
  let ?init = "\<lparr>func_sig = sig,
      device_sig = py_replace (''__device__ '' @ sig @ '';\<newline>\<newline>'')
        (slice sig (py_find (lower sig) name) (py_find (lower sig) name + int (length name)))
        (slice sig (py_find (lower sig) name) (py_find (lower sig) name + int (length name)) @ ''_device''),
      vars = [], has_lo = False, has_hi = False, intvect_vars = []\<rparr>"
  have "\<forall>nv\<in>set (enumerate 0 (split_char CHR '','' g3)).
          split_ws (snd nv) \<noteq> [] \<and> fst nv < length (split_char CHR '','' g3)
          \<and> split_ws (split_char CHR '','' g3 ! fst nv) \<noteq> []"
    using wf by (auto simp: in_set_enumerate_eq)
  from rewrite_params_total[of "(sig, pos)" g1 g3 g, OF _ _ this, of ?init] dd wf
  obtain st where
    run: "rewrite_params (sig, pos) (enumerate 0 (split_char CHR '','' g3)) ?init = Inr st"
    by auto
  have img: "snd ` set (enumerate 0 (split_char CHR '','' g3)) = set (split_char CHR '','' g3)"
    by (metis map_snd_enumerate set_map)
  from rewrite_params_flags[of "(sig, pos)" g1 g3 g, OF _ run] dd wf img
  have "\<not> (has_lo st \<and> has_hi st)"
    by auto
  with run dd have "rewrite_parts name (sig, pos) = Inl (SysExit (bounds_message name (func_sig st)))"
    by (simp add: rewrite_parts_def Let_def)
  then have "rewrite_signature name (sig, pos) = Inl (SysExit (bounds_message name (func_sig st)))"
    by (simp add: rewrite_signature_def)
  then show "\<exists>fs. rewrite_signature name (sig, pos) = Inl (SysExit (bounds_message name fs))"
    by blast
next
  show "\<forall>fs. \<exists>a b. bounds_message name fs = a @ name @ b"
    unfolding bounds_message_def by blast
qed


text \<open>The theorem at Scenario B, and at a declaration without \<^verbatim>\<open>hi\<close>.\<close>

theorem bounds_completeness_witness:
  "(\<exists>g1 g3 g. decls_re_search ''void bar(const int* lo, const int* hi, Real* a);\<newline>'' = Some (g1, g3, g)
         \<and> (\<exists>v\<in>set (split_char CHR '','' g3). declared_name (last (split_ws v)) = ''lo'')
         \<and> (\<exists>v\<in>set (split_char CHR '','' g3). declared_name (last (split_ws v)) = ''hi''))
   \<and> (\<exists>fs. rewrite_signature ''foo'' (''void foo(const int* lo, Real* a);\<newline>'', [[]])
          = Inl (SysExit (bounds_message ''foo'' fs)))
   \<and> (\<forall>fs. \<exists>a b. bounds_message ''foo'' fs = a @ ''foo'' @ b)"
proof -
  have ok: "rewrite_signature ''bar'' (''void bar(const int* lo, const int* hi, Real* a);\<newline>'', [[]]) =
     Inr (''__device__ void bar_device(const int* lo, const int* hi, Real* a);\<newline>;\<newline>\<newline>'',
          TEMPLATE
            ''bar(const int lo_1, const int lo_2, const int lo_3, const int hi_1, const int hi_2, const int hi_3, Real* a)\<newline>''
            ''   int lo[3] = {lo_1, lo_2, lo_3};\<newline>   int hi[3] = {hi_1, hi_2, hi_3};\<newline>''
            ''bar_device(blo, bhi, a)'')"
    by code_simp
  have dd: "decls_re_search ''void foo(const int* lo, Real* a);\<newline>''
      = Some (''void foo'', ''const int* lo, Real* a'', ''void foo(const int* lo, Real* a)'')"
    by code_simp
  have toks: "\<forall>v\<in>set (split_char CHR '','' ''const int* lo, Real* a''). split_ws v \<noteq> []"
    by code_simp
  have missing: "\<not> ((\<exists>v\<in>set (split_char CHR '','' ''const int* lo, Real* a'').
                        declared_name (last (split_ws v)) = ''lo'')
              \<and> (\<exists>v\<in>set (split_char CHR '','' ''const int* lo, Real* a'').
                        declared_name (last (split_ws v)) = ''hi''))"
    by code_simp
  have pos: "[[] :: nat list] \<noteq> []"
    by simp
  from ok dd toks missing pos
    bounds_completeness[where name="''bar''"
      and sig="''void bar(const int* lo, const int* hi, Real* a);\<newline>''" and pos="[[]]"]
    bounds_completeness[where name="''foo''"
      and sig="''void foo(const int* lo, Real* a);\<newline>''" and pos="[[]]"
      and ?g1.0="''void foo''" and ?g3.0="''const int* lo, Real* a''"
      and g="''void foo(const int* lo, Real* a)''"]
  show ?thesis
    by blast
qed

text \<open>
  With an empty parameter list both bounds are missing, and the run ends earlier, at
  \<^verbatim>\<open>_tmp[-1]\<close> (line 332), with an \<^verbatim>\<open>IndexError\<close> and not with the message.
\<close>

theorem empty_parameter_list_fails_differently:
  "decls_re_search ''void foo();\<newline>'' = Some (''void foo'', [], ''void foo()'')
   \<and> split_char CHR '','' [] = [[]]
   \<and> rewrite_signature ''foo'' (''void foo();\<newline>'', [[]]) = Inl IndexError"
  by code_simp


section \<open>The bound pointers in the emitted pair\<close>





section \<open>The parsed marker statement\<close>

text \<open>
  C4. A captured statement \<^verbatim>\<open>pre(mid)post\<close>, with no \<^verbatim>\<open>(\<close> in \<^verbatim>\<open>pre\<close> and no \<^verbatim>\<open>)\<close> in \<^verbatim>\<open>post\<close>,
  is parsed into the name, which is \<^verbatim>\<open>pre\<close> without the whitespace at its two ends and
  without any space character, and the arguments, which are the pieces of \<^verbatim>\<open>mid\<close> between
  its commas; for each tag the positions recorded are the indices, from zero and in
  order, of the arguments in which the tag occurs.
\<close>

theorem parsed_marker_statement:
  assumes "CHR ''('' \<notin> set pre" "CHR '')'' \<notin> set post"
  shows "\<exists>name positions args.
           parse_call macro_list (pre @ ''('' @ mid @ '')'' @ post) = Inr (name, positions)
           \<and> name = filter (\<lambda>c. c \<noteq> CHR '' '') (strip pre)
           \<and> (\<exists>ws1 ws2. pre = ws1 @ strip pre @ ws2 \<and> list_all is_space ws1 \<and> list_all is_space ws2)
           \<and> (strip pre \<noteq> [] \<longrightarrow> \<not> is_space (hd (strip pre)) \<and> \<not> is_space (last (strip pre)))
           \<and> args = split_char CHR '','' mid
           \<and> join '','' args = mid \<and> (\<forall>a\<in>set args. CHR '','' \<notin> set a)
           \<and> length positions = length macro_list
           \<and> (\<forall>j<length macro_list.
                 positions ! j = filter (\<lambda>i. \<exists>a b. args ! i = a @ macro_list ! j @ b) [0..<length args])"
  using parse_call_shape[OF assms, of macro_list mid] strip_decomposition[of pre]
  by (auto simp: join_split_char split_char_no_sep contains_iff)

text \<open>The theorem at the call \<^verbatim>\<open>foo (AMREX_INT_ANYD(lo), AMREX_INT_ANYD(hi), a)\<close>.\<close>

theorem parsed_marker_statement_witness:
  "\<exists>name positions args.
     parse_call [''AMREX_INT_ANYD'']
       (''  foo '' @ ''('' @ ''AMREX_INT_ANYD(lo), AMREX_INT_ANYD(hi), a'' @ '')'' @ [])
         = Inr (name, positions)
     \<and> name = filter (\<lambda>c. c \<noteq> CHR '' '') (strip ''  foo '')
     \<and> (\<exists>ws1 ws2. ''  foo '' = ws1 @ strip ''  foo '' @ ws2 \<and> list_all is_space ws1 \<and> list_all is_space ws2)
     \<and> (strip ''  foo '' \<noteq> [] \<longrightarrow> \<not> is_space (hd (strip ''  foo '')) \<and> \<not> is_space (last (strip ''  foo '')))
     \<and> args = split_char CHR '','' ''AMREX_INT_ANYD(lo), AMREX_INT_ANYD(hi), a''
     \<and> join '','' args = ''AMREX_INT_ANYD(lo), AMREX_INT_ANYD(hi), a''
     \<and> (\<forall>a\<in>set args. CHR '','' \<notin> set a)
     \<and> length positions = length [''AMREX_INT_ANYD'']
     \<and> (\<forall>j<length [''AMREX_INT_ANYD''].
           positions ! j = filter (\<lambda>i. \<exists>a b. args ! i = a @ [''AMREX_INT_ANYD''] ! j @ b) [0..<length args])"
proof -
  have 1: "CHR ''('' \<notin> set ''  foo ''" by simp
  have 2: "CHR '')'' \<notin> set []" by simp
  from parsed_marker_statement[OF 1 2] show ?thesis .
qed

text \<open>
  Whitespace other than the space character stays inside the name: \<^verbatim>\<open>replace(" ", "")\<close>
  removes spaces only.
\<close>

theorem name_keeps_inner_line_break:
  "parse_call [''AMREX_INT_ANYD''] ''amrex::\<newline>  foo(lo, hi)'' = Inr (''amrex::\<newline>foo'', [[]])
   \<and> is_space CHR ''\<newline>''"
  by code_simp


section \<open>The line that starts a captured declaration\<close>




section \<open>Scenario B\<close>

text \<open>
  C6. For the declaration \<^verbatim>\<open>void bar(const int* lo, const int* hi, Real* a);\<close> with no
  tagged position, the device declaration written is the original with \<^verbatim>\<open>__device__\<close> in
  front and \<^verbatim>\<open>bar_device\<close> for \<^verbatim>\<open>bar\<close>, the parameters \<^verbatim>\<open>const int* lo, const int* hi, Real* a\<close>
  untouched, and the kernel is the grid-stride loop over three dimensions with the
  single call \<^verbatim>\<open>bar_device(blo, bhi, a)\<close> in the innermost body.
\<close>

theorem scenario_B:
  "rewrite_signature ''bar'' (''void bar(const int* lo, const int* hi, Real* a);\<newline>'', [[]]) =
     Inr (''__device__ void bar_device(const int* lo, const int* hi, Real* a);\<newline>;\<newline>\<newline>'',
           ''\<newline>''
           @ ''__global__ static void cuda_bar(const int lo_1, const int lo_2, const int lo_3, const int hi_1, const int hi_2, const int hi_3, Real* a)\<newline>''
           @ ''\<newline>''
           @ ''{\<newline>''
           @ ''   int lo[3] = {lo_1, lo_2, lo_3};\<newline>''
           @ ''   int hi[3] = {hi_1, hi_2, hi_3};\<newline>''
           @ ''\<newline>''
           @ ''   int blo[3];\<newline>''
           @ ''   int bhi[3];\<newline>''
           @ ''   for (int k = lo[2] + blockIdx.z * blockDim.z + threadIdx.z; k <= hi[2]; k += blockDim.z * gridDim.z) {\<newline>''
           @ ''     blo[2] = k;\<newline>''
           @ ''     bhi[2] = k;\<newline>''
           @ ''     for (int j = lo[1] + blockIdx.y * blockDim.y + threadIdx.y; j <= hi[1]; j += blockDim.y * gridDim.y) {\<newline>''
           @ ''       blo[1] = j;\<newline>''
           @ ''       bhi[1] = j;\<newline>''
           @ ''       for (int i = lo[0] + blockIdx.x * blockDim.x + threadIdx.x; i <= hi[0]; i += blockDim.x * gridDim.x) {\<newline>''
           @ ''         blo[0] = i;\<newline>''
           @ ''         bhi[0] = i;\<newline>''
           @ ''         bar_device(blo, bhi, a);\<newline>''
           @ ''       }\<newline>''
           @ ''     }\<newline>''
           @ ''   }\<newline>''
           @ ''}\<newline>'')"
  by code_simp


section \<open>The expansion of a marked call\<close>




section \<open>Lines lost after a one-line declaration\<close>

text \<open>
  C8. The header has a target declaration on one line, another declaration on the next
  line, and \<^verbatim>\<open>#endif\<close>. The first pass captures the first line alone. The second pass reads
  the next line before it looks for the terminator, so the second line goes into the
  region too and is never written: only \<^verbatim>\<open>#endif\<close> is passed through.
\<close>

theorem one_line_declaration_swallows_next_line:
  "scan_expanded [(''foo'', [[]])] ''void foo(const int* lo, const int* hi);\<newline>''
     [''void keep(const int* n);\<newline>'', ''#endif\<newline>''] []
     = Some [(''foo'', ''void foo(const int* lo, const int* hi);\<newline>'', [[]])]
   \<and> scan_original [(''foo'', ''void foo(const int* lo, const int* hi);\<newline>'', [[]])]
       ''void foo(const int* lo, const int* hi);\<newline>''
       [''void keep(const int* n);\<newline>'', ''#endif\<newline>''] ([], [])
     = Some ([''#endif\<newline>''], [(''foo'', ''void foo(const int* lo, const int* hi);\<newline>'', [[]])])"
proof -
  have f1: "find_target [(''foo'', [[] :: nat list])] ''void foo(const int* lo, const int* hi);\<newline>''
      = Some (''foo'', [[]])"
    by code_simp
  have f2: "find_target [(''foo'', [[] :: nat list])] ''void keep(const int* n);\<newline>'' = None"
    by code_simp
  have f3: "find_target [(''foo'', [[] :: nat list])] ''#endif\<newline>'' = None"
    by code_simp
  have g1: "find_target [(''foo'', ''void foo(const int* lo, const int* hi);\<newline>'', [[] :: nat list])]
      ''void foo(const int* lo, const int* hi);\<newline>''
      = Some (''foo'', ''void foo(const int* lo, const int* hi);\<newline>'', [[]])"
    by code_simp
  have g3: "find_target [(''foo'', ''void foo(const int* lo, const int* hi);\<newline>'', [[] :: nat list])]
      ''#endif\<newline>'' = None"
    by code_simp
  have e1: "ends_statement ''void foo(const int* lo, const int* hi);\<newline>''"
    by code_simp
  have e2: "ends_statement ''void keep(const int* n);\<newline>''"
    by code_simp
  have r1: "read_signature [] ''void foo(const int* lo, const int* hi);\<newline>''
        [''void keep(const int* n);\<newline>'', ''#endif\<newline>'']
      = Some (''void foo(const int* lo, const int* hi);\<newline>'',
              [''void keep(const int* n);\<newline>'', ''#endif\<newline>''])"
    using e1 by (subst read_signature.simps) simp
  have r2: "read_region ''void foo(const int* lo, const int* hi);\<newline>''
        [''void keep(const int* n);\<newline>'', ''#endif\<newline>'']
      = Some (''void foo(const int* lo, const int* hi);\<newline>void keep(const int* n);\<newline>'',
              [''#endif\<newline>''])"
    using e2 by (subst read_region.simps) simp
  have p1: "scan_expanded [(''foo'', [[]])] ''void foo(const int* lo, const int* hi);\<newline>''
     [''void keep(const int* n);\<newline>'', ''#endif\<newline>''] []
     = Some [(''foo'', ''void foo(const int* lo, const int* hi);\<newline>'', [[]])]"
    apply (subst scan_expanded.simps, simp add: f1 r1)
    apply (subst scan_expanded.simps, simp add: f2)
    apply (subst scan_expanded.simps, simp add: f3 scan_expanded_eof)
    done
  have p2: "scan_original [(''foo'', ''void foo(const int* lo, const int* hi);\<newline>'', [[]])]
       ''void foo(const int* lo, const int* hi);\<newline>''
       [''void keep(const int* n);\<newline>'', ''#endif\<newline>''] ([], [])
     = Some ([''#endif\<newline>''], [(''foo'', ''void foo(const int* lo, const int* hi);\<newline>'', [[]])])"
    apply (subst scan_original.simps, simp add: g1 r2)
    apply (subst scan_original.simps, simp add: g3 scan_original_eof)
    done
  from p1 p2 show ?thesis by simp
qed


section \<open>One pair for each name\<close>

text \<open>
  C9. When the conversion of a header succeeds, the output is the lines passed through,
  the fixed opening, the pairs and the fixed closing; each pair is the result of
  rewriting the captured declaration of its name; and a name has exactly one pair when
  the second pass finds it in the original header, however often, and no pair
  otherwise. The order of a Python set is any rearrangement \<^verbatim>\<open>set_order\<close> of the keys.
\<close>

theorem one_pair_per_matched_name:
  assumes order: "\<forall>ks. distinct ks \<longrightarrow> distinct (set_order ks) \<and> set (set_order ks) = set ks"
    and run: "convert_header set_order targets h_name cpp_file h_file = Some (Inr out)"
  shows "\<exists>signatures hout needed pairs.
       scan_expanded targets (fst (readline cpp_file)) (snd (readline cpp_file)) [] = Some signatures
     \<and> scan_original signatures (fst (readline h_file)) (snd (readline h_file)) ([], [])
         = Some (hout, needed)
     \<and> header_pairs set_order signatures needed = Inr pairs
     \<and> out = hout @ header_intro h_name @ concat (map pair_writes pairs) @ header_outro
     \<and> (\<forall>p\<in>set pairs. \<exists>sg. map_of signatures (fst p) = Some sg
                          \<and> rewrite_signature (fst p) sg = Inr (snd p))
     \<and> (\<forall>name. length (filter (\<lambda>p. fst p = name) pairs)
                 = (if name \<in> set (matched_names signatures h_file) then 1 else 0))"
proof -
  from run obtain signatures acc pairs where
    p1: "scan_expanded targets (fst (readline cpp_file)) (snd (readline cpp_file)) [] = Some signatures"
    and p2: "scan_original signatures (fst (readline h_file)) (snd (readline h_file)) ([], []) = Some acc"
    and hp: "header_pairs set_order signatures (snd acc) = Inr pairs"
    and out: "out = fst acc @ header_intro h_name @ concat (map pair_writes pairs) @ header_outro"
    by (auto simp: convert_header_def bind_eq_Some_conv bind_err_Inr_iff)
  have names: "map fst pairs = set_order (remdups (map fst (snd acc)))"
    using hp by (simp add: header_pairs_def emit_pairs_names)
  have d: "distinct (map fst pairs)" and s: "set (map fst pairs) = fst ` set (snd acc)"
    using order[rule_format, of "remdups (map fst (snd acc))"] names by simp_all
  have keys: "fst ` set (snd acc) = set (matched_names signatures h_file)"
    using scan_original_keys[OF p2] by simp
  have count: "length (filter (\<lambda>p. fst p = name) pairs)
                 = (if name \<in> set (matched_names signatures h_file) then 1 else 0)" for name
    using count_in_distinct[OF d, of name] s keys by simp
  have content: "\<forall>p\<in>set pairs. \<exists>sg. map_of signatures (fst p) = Some sg
                          \<and> rewrite_signature (fst p) sg = Inr (snd p)"
    using hp unfolding header_pairs_def by (rule emit_pairs_content)
  obtain hout needed where acc: "acc = (hout, needed)" by (cases acc)
  show ?thesis
    apply (rule exI[of _ signatures], rule exI[of _ hout], rule exI[of _ needed], rule exI[of _ pairs])
    using p1 p2 hp out content count acc apply simp
    done
qed


text \<open>
  The theorem at a header that declares \<^verbatim>\<open>foo\<close> twice: the second pass finds the name
  twice, and one pair is written.
\<close>

theorem one_pair_per_matched_name_witness:
  "\<exists>out pairs.
     convert_header rev [(''foo'', [[]])] ''Foo_F.H''
       [''void foo(const int* lo,\<newline>'', ''  const int* hi);\<newline>'',
        ''void foo(const int* lo,\<newline>'', ''  const int* hi);\<newline>'']
       [''void foo(const int* lo,\<newline>'', ''  const int* hi);\<newline>'',
        ''void foo(const int* lo,\<newline>'', ''  const int* hi);\<newline>'']
       = Some (Inr out)
     \<and> out = header_intro ''Foo_F.H'' @ concat (map pair_writes pairs) @ header_outro
     \<and> matched_names [(''foo'', ''void foo(const int* lo,\<newline>  const int* hi);\<newline>'', [[] :: nat list])]
         [''void foo(const int* lo,\<newline>'', ''  const int* hi);\<newline>'',
          ''void foo(const int* lo,\<newline>'', ''  const int* hi);\<newline>''] = [''foo'', ''foo'']
     \<and> length (filter (\<lambda>p. fst p = ''foo'') pairs) = 1"
proof -
  let ?L1 = "''void foo(const int* lo,\<newline>''" and ?L2 = "''  const int* hi);\<newline>''"
  let ?S = "[(''foo'', ''void foo(const int* lo,\<newline>  const int* hi);\<newline>'', [[] :: nat list])]"
  have f1: "find_target [(''foo'', [[] :: nat list])] ?L1 = Some (''foo'', [[]])"
    by code_simp
  have g1: "find_target ?S ?L1 = Some (''foo'', ''void foo(const int* lo,\<newline>  const int* hi);\<newline>'', [[]])"
    by code_simp
  have e1: "\<not> ends_statement ?L1" and e2: "ends_statement ?L2"
    by code_simp+
  have r1: "read_signature [] ?L1 (?L2 # rest) = Some (?L1 @ ?L2, rest)" for rest
    using e1 e2 by (simp add: read_signature_eq)
  have r2: "read_region ?L1 (?L2 # rest) = Some (?L1 @ ?L2, rest)" for rest
    using e2 by (simp add: read_region_eq)
  have p1: "scan_expanded [(''foo'', [[]])] ?L1 [?L2, ?L1, ?L2] [] = Some ?S"
    apply (subst scan_expanded.simps, simp add: f1 r1)
    apply (subst scan_expanded.simps, simp add: f1 r1 scan_expanded_eof)
    done
  have p2: "scan_original ?S ?L1 [?L2, ?L1, ?L2] ([], []) = Some ([], ?S)"
    apply (subst scan_original.simps, simp add: g1 r2)
    apply (subst scan_original.simps, simp add: g1 r2 scan_original_eof)
    done
  have "\<not> isl (rewrite_signature ''foo'' (''void foo(const int* lo,\<newline>  const int* hi);\<newline>'', [[]]))"
    by code_simp
  then obtain pair where
    pair: "rewrite_signature ''foo'' (''void foo(const int* lo,\<newline>  const int* hi);\<newline>'', [[]]) = Inr pair"
    by (cases "rewrite_signature ''foo'' (''void foo(const int* lo,\<newline>  const int* hi);\<newline>'', [[]])") auto
  have hp: "header_pairs rev ?S ?S = Inr [(''foo'', pair)]"
    by (simp add: header_pairs_def pair)
  have run: "convert_header rev [(''foo'', [[]])] ''Foo_F.H'' [?L1, ?L2, ?L1, ?L2] [?L1, ?L2, ?L1, ?L2]
      = Some (Inr (header_intro ''Foo_F.H'' @ concat (map pair_writes [(''foo'', pair)]) @ header_outro))"
    by (simp add: convert_header_def p1 p2 hp)
  have order: "\<forall>ks :: string list. distinct ks \<longrightarrow> distinct (rev ks) \<and> set (rev ks) = set ks"
    by simp
  have m: "matched_names ?S [?L1, ?L2, ?L1, ?L2] = [''foo'', ''foo'']"
    by (simp add: g1 e2)
  from one_pair_per_matched_name[of rev, OF order run] obtain signatures hout needed pairs where
    a: "scan_expanded [(''foo'', [[]])] (fst (readline [?L1, ?L2, ?L1, ?L2])) (snd (readline [?L1, ?L2, ?L1, ?L2])) []
          = Some signatures"
    and b: "header_pairs rev signatures needed = Inr pairs"
    and c: "scan_original signatures (fst (readline [?L1, ?L2, ?L1, ?L2])) (snd (readline [?L1, ?L2, ?L1, ?L2])) ([], [])
          = Some (hout, needed)"
    and d: "\<forall>name. length (filter (\<lambda>p. fst p = name) pairs)
                 = (if name \<in> set (matched_names signatures [?L1, ?L2, ?L1, ?L2]) then 1 else 0)"
    by (elim exE conjE)
  from a p1 have sg: "signatures = ?S" by simp
  with c p2 have "needed = ?S" by simp
  with b sg hp have pairs: "pairs = [(''foo'', pair)]" by simp
  from d[rule_format, of "''foo''"] sg m
  have one: "length (filter (\<lambda>p. fst p = ''foo'') pairs) = 1" by simp
  show ?thesis
    apply (rule exI[of _ "header_intro ''Foo_F.H'' @ concat (map pair_writes [(''foo'', pair)]) @ header_outro"])
    apply (rule exI[of _ pairs])
    apply (intro conjI)
       apply (rule run)
      apply (simp only: pairs)
     apply (rule m)
    apply (rule one)
    done
qed

text \<open>
  A name that the first pass finds twice in the preprocessed copy (it comes from an
  included header) and the second pass never finds in the original header gets no pair
  in this output header.
\<close>

theorem name_of_included_header_has_no_pair:
  "scan_expanded [(''foo'', [[]])] ''void foo(const int* lo,\<newline>''
     [''  const int* hi);\<newline>'', ''void foo(const int* lo,\<newline>'', ''  const int* hi);\<newline>''] []
     = Some [(''foo'', ''void foo(const int* lo,\<newline>  const int* hi);\<newline>'', [[]])]
   \<and> convert_header rev [(''foo'', [[]])] ''Foo_F.H''
       [''void foo(const int* lo,\<newline>'', ''  const int* hi);\<newline>'',
        ''void foo(const int* lo,\<newline>'', ''  const int* hi);\<newline>'']
       [''#include <Bar_F.H>\<newline>'']
     = Some (Inr ([''#include <Bar_F.H>\<newline>''] @ header_intro ''Foo_F.H'' @ header_outro))"
proof -
  let ?L1 = "''void foo(const int* lo,\<newline>''" and ?L2 = "''  const int* hi);\<newline>''"
  let ?S = "[(''foo'', ''void foo(const int* lo,\<newline>  const int* hi);\<newline>'', [[] :: nat list])]"
  have f1: "find_target [(''foo'', [[] :: nat list])] ?L1 = Some (''foo'', [[]])"
    by code_simp
  have g: "find_target ?S ''#include <Bar_F.H>\<newline>'' = None"
    by code_simp
  have e1: "\<not> ends_statement ?L1" and e2: "ends_statement ?L2"
    by code_simp+
  have r1: "read_signature [] ?L1 (?L2 # rest) = Some (?L1 @ ?L2, rest)" for rest
    using e1 e2 by (simp add: read_signature_eq)
  have p1: "scan_expanded [(''foo'', [[]])] ?L1 [?L2, ?L1, ?L2] [] = Some ?S"
    apply (subst scan_expanded.simps, simp add: f1 r1)
    apply (subst scan_expanded.simps, simp add: f1 r1 scan_expanded_eof)
    done
  have p2: "scan_original ?S ''#include <Bar_F.H>\<newline>'' [] ([], []) = Some ([''#include <Bar_F.H>\<newline>''], [])"
    by (subst scan_original.simps) (simp add: g scan_original_eof)
  have run: "convert_header rev [(''foo'', [[]])] ''Foo_F.H'' [?L1, ?L2, ?L1, ?L2] [''#include <Bar_F.H>\<newline>'']
     = Some (Inr ([''#include <Bar_F.H>\<newline>''] @ header_intro ''Foo_F.H'' @ header_outro))"
    by (simp add: convert_header_def p1 p2 header_pairs_def)
  from p1 run show ?thesis by simp
qed


section \<open>Termination of the capture loops\<close>

text \<open>
  C10. A capture loop returns exactly when a line that ends a statement (its trimmed form
  ends in \<^verbatim>\<open>;\<close>) is still to come: for the collector and the expander among the lines
  after the marker line, for the second header pass among the lines after the matched
  line, and for the first header pass among the matched line itself and the lines after
  it. Where no such line is left, the loop and with it the scan of the file never return.
\<close>

theorem capture_loops_terminate:
  "(read_call fc (fst (readline hin)) (snd (readline hin)) \<noteq> None
      \<longleftrightarrow> (\<exists>l\<in>set hin. ends_statement l))
   \<and> (read_signature sig line hin \<noteq> None
      \<longleftrightarrow> ends_statement line \<or> (\<exists>l\<in>set hin. ends_statement l))
   \<and> (read_region sig hin \<noteq> None \<longleftrightarrow> (\<exists>l\<in>set hin. ends_statement l))
   \<and> (startswith line ''#pragma gpu'' \<and> \<not> (\<exists>l\<in>set hin. ends_statement l)
      \<longrightarrow> find_targets_loop macro_list line hin targets = None
          \<and> convert_cxx_loop line hin hout = None)
   \<and> (line \<noteq> [] \<and> find_target targets line \<noteq> None
        \<and> \<not> ends_statement line \<and> \<not> (\<exists>l\<in>set hin. ends_statement l)
      \<longrightarrow> scan_expanded targets line hin signatures = None)
   \<and> (line \<noteq> [] \<and> find_target signatures line \<noteq> None
        \<and> \<not> (\<exists>l\<in>set hin. ends_statement l)
      \<longrightarrow> scan_original signatures line hin acc = None)"
proof -
  have call: "read_call fc (fst (readline hin)) (snd (readline hin)) \<noteq> None
      \<longleftrightarrow> (\<exists>l\<in>set hin. ends_statement l)" for fc
    by (cases hin) (auto simp: read_call_eq list_ex_iff)
  have sig: "read_signature sig line hin \<noteq> None
      \<longleftrightarrow> ends_statement line \<or> (\<exists>l\<in>set hin. ends_statement l)" for sig
    by (auto simp: read_signature_eq list_ex_iff)
  have region: "read_region sig hin \<noteq> None \<longleftrightarrow> (\<exists>l\<in>set hin. ends_statement l)" for sig
    by (auto simp: read_region_eq list_ex_iff)
  have targets: "find_targets_loop macro_list line hin targets = None"
    if "startswith line ''#pragma gpu''" "\<not> (\<exists>l\<in>set hin. ends_statement l)"
    using that call[of "[]"] startswith_nonempty[OF that(1)]
    by (subst find_targets_loop.simps) (simp del: not_None_eq)
  have cxx: "convert_cxx_loop line hin hout = None"
    if "startswith line ''#pragma gpu''" "\<not> (\<exists>l\<in>set hin. ends_statement l)"
    using that call[of "[]"] startswith_nonempty[OF that(1)]
    by (subst convert_cxx_loop.simps) (simp del: not_None_eq)
  have expanded: "scan_expanded targets line hin signatures = None"
    if "line \<noteq> []" "find_target targets line \<noteq> None" "\<not> ends_statement line"
       "\<not> (\<exists>l\<in>set hin. ends_statement l)"
    using that sig[of "[]"]
    by (subst scan_expanded.simps) (auto simp del: not_None_eq)
  have original: "scan_original signatures line hin acc = None"
    if "line \<noteq> []" "find_target signatures line \<noteq> None"
       "\<not> (\<exists>l\<in>set hin. ends_statement l)"
    using that region[of line]
    by (subst scan_original.simps) (auto simp del: not_None_eq)
  from call sig region targets cxx expanded original show ?thesis
    by blast
qed


theorem capture_loops_terminate_witness:
  "read_call [] (fst (readline [''foo(a,'', '' b);''])) (snd (readline [''foo(a,'', '' b);''])) \<noteq> None
   \<and> read_signature [] ''void foo(int* lo,'' [''int* hi);''] \<noteq> None
   \<and> read_region ''void foo(int* lo,'' [''int* hi);''] \<noteq> None
   \<and> find_targets_loop [''AMREX_INT_ANYD''] ''#pragma gpu'' [''foo(a, b)''] [] = None
   \<and> convert_cxx_loop ''#pragma gpu'' [''foo(a, b)''] [] = None
   \<and> scan_expanded [(''foo'', [[]])] ''void foo(int* lo,'' [''int* hi)''] [] = None
   \<and> scan_original [(''foo'', ''void foo(int* lo, int* hi);'', [[]])]
         ''void foo(int* lo, int* hi);'' [''#endif''] ([], []) = None"
proof -
  have e1: "\<exists>l\<in>set [''foo(a,'', '' b);'']. ends_statement l"
    by code_simp
  have e2: "\<exists>l\<in>set [''int* hi);'']. ends_statement l"
    by code_simp
  have m: "startswith ''#pragma gpu'' ''#pragma gpu''"
    by code_simp
  have n1: "\<not> (\<exists>l\<in>set [''foo(a, b)'']. ends_statement l)"
    by code_simp
  have n2: "\<not> ends_statement ''void foo(int* lo,''"
           "\<not> (\<exists>l\<in>set [''int* hi)'']. ends_statement l)"
    by code_simp+
  have n3: "\<not> (\<exists>l\<in>set [''#endif'']. ends_statement l)"
    by code_simp
  have f1: "find_target [(''foo'', [[] :: nat list])] ''void foo(int* lo,'' \<noteq> None"
    by code_simp
  have f2: "find_target [(''foo'', ''void foo(int* lo, int* hi);'', [[] :: nat list])]
              ''void foo(int* lo, int* hi);'' \<noteq> None"
    by code_simp
  show ?thesis
    using e1 e2 m n1 n2 n3 f1 f2
      capture_loops_terminate[where fc="[]" and hin="[''foo(a,'', '' b);'']"]
      capture_loops_terminate[where sig="[]" and line="''void foo(int* lo,''" and hin="[''int* hi);'']"]
      capture_loops_terminate[where sig="''void foo(int* lo,''" and hin="[''int* hi);'']"]
      capture_loops_terminate[where line="''#pragma gpu''" and hin="[''foo(a, b)'']"
        and macro_list="[''AMREX_INT_ANYD'']" and targets="[]" and hout="[]"]
      capture_loops_terminate[where line="''void foo(int* lo,''" and hin="[''int* hi)'']"
        and targets="[(''foo'', [[]])]" and signatures="[]"]
      capture_loops_terminate[where line="''void foo(int* lo, int* hi);''" and hin="[''#endif'']"
        and signatures="[(''foo'', ''void foo(int* lo, int* hi);'', [[]])]" and acc="([], [])"]
    by (simp del: not_None_eq)
qed

text \<open>
  In the first pass the matched line is tested before any line is read: a declaration on
  the last line of the file is captured although no line follows it.
\<close>

theorem matched_line_ends_its_own_capture:
  "find_target [(''foo'', [[] :: nat list])] ''void foo(const int* lo, const int* hi);''
       = Some (''foo'', [[]])
   \<and> read_signature [] ''void foo(const int* lo, const int* hi);'' []
       = Some (''void foo(const int* lo, const int* hi);'', [])
   \<and> \<not> list_ex ends_statement []
   \<and> scan_expanded [(''foo'', [[]])] ''void foo(const int* lo, const int* hi);'' [] []
       = Some [(''foo'', ''void foo(const int* lo, const int* hi);'', [[]])]"
proof -
  have f: "find_target [(''foo'', [[] :: nat list])] ''void foo(const int* lo, const int* hi);''
             = Some (''foo'', [[]])"
    by code_simp
  have e: "ends_statement ''void foo(const int* lo, const int* hi);''"
    by code_simp
  have r: "read_signature [] ''void foo(const int* lo, const int* hi);'' []
       = Some (''void foo(const int* lo, const int* hi);'', [])"
    using e by (subst read_signature.simps) simp
  have s0: "scan_expanded [(''foo'', [[]])] [] [] sg = Some sg" for sg
    by (subst scan_expanded.simps) simp
  have s: "scan_expanded [(''foo'', [[]])] ''void foo(const int* lo, const int* hi);'' [] []
       = Some [(''foo'', ''void foo(const int* lo, const int* hi);'', [[]])]"
    by (subst scan_expanded.simps) (simp add: f r s0)
  from f r s show ?thesis by simp
qed


end
